theory Spec2Isabelle
  imports Main
begin

section \<open>JavaScript numbers and dates\<close>

text \<open>
  The program is one browser script (the later revision is modelled; the earlier
  revision has the same cache, resolver and request counter, line for line, and a
  shorter page).  Numbers that the script computes on calendar dates are integers well
  inside the range where IEEE doubles are exact, so a number is either \<open>NaN\<close> or an
  integer.  A \<open>Date\<close> object is its time value: milliseconds since the epoch, or
  \<open>NaN\<close> for an Invalid Date.
\<close>

datatype jsnum = NaN | Fin int

definition MS_PER_DAY :: int where
  "MS_PER_DAY = 24 * 60 * 60 * 1000"

definition CACHE_TTL_MS :: int where
  "CACHE_TTL_MS = 120 * 24 * 60 * 60 * 1000"

definition FETCH_TIMEOUT_MS :: int where
  "FETCH_TIMEOUT_MS = 4500"

definition API_BASE :: string where
  "API_BASE = ''https://api.national-holidays.jp/''"

subsection \<open>The date algorithms of ECMA-262 that the script calls\<close>

definition Day :: "int \<Rightarrow> int" where
  "Day t = t div MS_PER_DAY"

definition WeekDay :: "int \<Rightarrow> int" where
  "WeekDay t = (Day t + 4) mod 7"

definition DaysInYear :: "int \<Rightarrow> int" where
  "DaysInYear y =
     (if y mod 4 \<noteq> 0 then 365 else if y mod 100 \<noteq> 0 then 366
      else if y mod 400 \<noteq> 0 then 365 else 366)"

definition DayFromYear :: "int \<Rightarrow> int" where
  "DayFromYear y =
     365 * (y - 1970) + (y - 1969) div 4 - (y - 1901) div 100 + (y - 1601) div 400"

text \<open>
  \<open>YearFromTime t\<close> is the largest year \<open>y\<close> with \<open>DayFromYear y \<le> Day t\<close>.  It is found
  by walking down from an estimate until the year starts on or before the day, then up
  while the next year does too; \<open>YearFromDay_bounds\<close> below shows that the result is that
  year, whatever the estimate.
\<close>

function year_down :: "int \<Rightarrow> int \<Rightarrow> int" where
  "year_down d y = (if d < DayFromYear y then year_down d (y - 1) else y)"
  by pat_completeness auto

function year_up :: "int \<Rightarrow> int \<Rightarrow> int" where
  "year_up d y = (if DayFromYear (y + 1) \<le> d then year_up d (y + 1) else y)"
  by pat_completeness auto

definition YearFromDay :: "int \<Rightarrow> int" where
  "YearFromDay d = year_up d (year_down d (1970 + d div 365))"

definition YearFromTime :: "int \<Rightarrow> int" where
  "YearFromTime t = YearFromDay (Day t)"

definition InLeapYear :: "int \<Rightarrow> bool" where
  "InLeapYear t = (DaysInYear (YearFromTime t) = 366)"

definition DayWithinYear :: "int \<Rightarrow> int" where
  "DayWithinYear t = Day t - DayFromYear (YearFromTime t)"

text \<open>The day within the year on which month \<open>m\<close> (0 = January) starts.\<close>

definition month_start :: "bool \<Rightarrow> int \<Rightarrow> int" where
  "month_start leap m =
     (let l = (if leap then 1 else 0) in
      if m \<le> 0 then 0 else if m = 1 then 31 else if m = 2 then 59 + l
      else if m = 3 then 90 + l else if m = 4 then 120 + l else if m = 5 then 151 + l
      else if m = 6 then 181 + l else if m = 7 then 212 + l else if m = 8 then 243 + l
      else if m = 9 then 273 + l else if m = 10 then 304 + l else if m = 11 then 334 + l
      else 365 + l)"

definition MonthFromTime :: "int \<Rightarrow> int" where
  "MonthFromTime t =
     (let d = DayWithinYear t; leap = InLeapYear t in
      if d < month_start leap 1 then 0 else if d < month_start leap 2 then 1
      else if d < month_start leap 3 then 2 else if d < month_start leap 4 then 3
      else if d < month_start leap 5 then 4 else if d < month_start leap 6 then 5
      else if d < month_start leap 7 then 6 else if d < month_start leap 8 then 7
      else if d < month_start leap 9 then 8 else if d < month_start leap 10 then 9
      else if d < month_start leap 11 then 10 else 11)"

definition DateFromTime :: "int \<Rightarrow> int" where
  "DateFromTime t = DayWithinYear t - month_start (InLeapYear t) (MonthFromTime t) + 1"

definition MakeDay :: "int \<Rightarrow> int \<Rightarrow> int \<Rightarrow> int" where
  "MakeDay year month date =
     (let ym = year + month div 12; mn = month mod 12 in
      DayFromYear ym + month_start (DaysInYear ym = 366) mn + date - 1)"

definition TimeClip :: "int \<Rightarrow> jsnum" where
  "TimeClip t = (if \<bar>t\<bar> > 8640000000000000 then NaN else Fin t)"

definition MakeFullYear :: "int \<Rightarrow> int" where
  "MakeFullYear y = (if 0 \<le> y \<and> y \<le> 99 then 1900 + y else y)"

text \<open>
  \<open>Date.UTC(y, m, d)\<close> with three arguments; \<open>undefined\<close> and \<open>NaN\<close> arguments are
  \<open>NaN\<close> here.  The result is a whole number of days, or \<open>NaN\<close>.
\<close>

definition Date_UTC :: "jsnum \<Rightarrow> jsnum \<Rightarrow> jsnum \<Rightarrow> jsnum" where
  "Date_UTC y m d =
     (case (y, m, d) of
        (Fin y', Fin m', Fin d') \<Rightarrow> TimeClip (MakeDay (MakeFullYear y') m' d' * MS_PER_DAY)
      | _ \<Rightarrow> NaN)"

definition getUTCFullYear :: "jsnum \<Rightarrow> jsnum" where
  "getUTCFullYear dt = (case dt of NaN \<Rightarrow> NaN | Fin t \<Rightarrow> Fin (YearFromTime t))"

definition getUTCMonth :: "jsnum \<Rightarrow> jsnum" where
  "getUTCMonth dt = (case dt of NaN \<Rightarrow> NaN | Fin t \<Rightarrow> Fin (MonthFromTime t))"

definition getUTCDate :: "jsnum \<Rightarrow> jsnum" where
  "getUTCDate dt = (case dt of NaN \<Rightarrow> NaN | Fin t \<Rightarrow> Fin (DateFromTime t))"

definition getUTCDay :: "jsnum \<Rightarrow> jsnum" where
  "getUTCDay dt = (case dt of NaN \<Rightarrow> NaN | Fin t \<Rightarrow> Fin (WeekDay t))"

definition js_plus :: "jsnum \<Rightarrow> int \<Rightarrow> jsnum" where
  "js_plus a k = (case a of NaN \<Rightarrow> NaN | Fin x \<Rightarrow> Fin (x + k))"

section \<open>Strings\<close>

definition is_digit :: "char \<Rightarrow> bool" where
  "is_digit c = (c \<in> set ''0123456789'')"

definition digit_val :: "char \<Rightarrow> int" where
  "digit_val c = int (of_char c) - 48"

definition dec_value :: "string \<Rightarrow> int" where
  "dec_value s = foldl (\<lambda>a c. 10 * a + digit_val c) 0 s"

definition digit_char :: "nat \<Rightarrow> char" where
  "digit_char n = char_of (48 + n)"

fun show_nat :: "nat \<Rightarrow> string" where
  "show_nat n = (if n < 10 then [digit_char n] else show_nat (n div 10) @ [digit_char (n mod 10)])"

text \<open>\<open>String(n)\<close>, as a template literal applies it to a number.\<close>

definition String_num :: "jsnum \<Rightarrow> string" where
  "String_num n =
     (case n of NaN \<Rightarrow> ''NaN''
      | Fin i \<Rightarrow> if i < 0 then CHR ''-'' # show_nat (nat (- i)) else show_nat (nat i))"

definition pad2 :: "jsnum \<Rightarrow> string" where
  "pad2 n = (let s = String_num n in replicate (2 - length s) CHR ''0'' @ s)"

text \<open>\<open>s.split(c)\<close>: always at least one piece.\<close>

fun split_on :: "char \<Rightarrow> string \<Rightarrow> string list" where
  "split_on c [] = [[]]"
| "split_on c (x # xs) =
     (if x = c then [] # split_on c xs
      else (case split_on c xs of [] \<Rightarrow> [[x]] | p # ps \<Rightarrow> (x # p) # ps))"

text \<open>
  \<open>encodeURIComponent\<close> on a string given as its UTF-8 bytes: the unreserved characters
  stay, every other byte becomes \<open>%XX\<close>.
\<close>

definition unreserved :: "char \<Rightarrow> bool" where
  "unreserved c =
     (c \<in> set ''ABCDEFGHIJKLMNOPQRSTUVWXYZabcdefghijklmnopqrstuvwxyz0123456789-_.!~*()''
      \<or> c = CHR 0x27)"

definition hex_digit :: "nat \<Rightarrow> char" where
  "hex_digit n = ''0123456789ABCDEF'' ! (n mod 16)"

definition encodeURIComponent :: "string \<Rightarrow> string" where
  "encodeURIComponent s =
     concat (map (\<lambda>c. if unreserved c then [c]
                       else [CHR ''%'', hex_digit (of_char c div 16), hex_digit (of_char c)]) s)"

section \<open>JSON values\<close>

text \<open>
  What \<open>JSON.parse\<close> returns and what the script builds from it.  Numbers are modelled
  by their integer values (\<open>Date.now()\<close> is an integer); an object is the list of its
  own properties in the order of their insertion (an order that nothing in the script
  reads), looked up by \<open>map_of\<close>.  \<open>JUndefined\<close> is the result of reading a property
  that is not there; it never occurs inside a parsed value.
\<close>

datatype jsval =
    JUndefined
  | JNull
  | JBool bool
  | JNum int
  | JStr string
  | JArr "jsval list"
  | JObj "(string \<times> jsval) list"

fun truthy :: "jsval \<Rightarrow> bool" where
  "truthy JUndefined = False"
| "truthy JNull = False"
| "truthy (JBool b) = b"
| "truthy (JNum n) = (n \<noteq> 0)"
| "truthy (JStr s) = (s \<noteq> [])"
| "truthy (JArr xs) = True"
| "truthy (JObj kvs) = True"

text \<open>\<open>a || b\<close>\<close>

definition js_or :: "jsval \<Rightarrow> jsval \<Rightarrow> jsval" where
  "js_or a b = (if truthy a then a else b)"

text \<open>
  An array index is a canonical decimal numeral below \<open>2^32 - 1\<close>; any other property
  name of an array is an ordinary property.
\<close>

definition array_index :: "string \<Rightarrow> nat option" where
  "array_index k =
     (if k \<noteq> [] \<and> list_all is_digit k \<and> (k = ''0'' \<or> hd k \<noteq> CHR ''0'')
         \<and> dec_value k < 2 ^ 32 - 1
      then Some (nat (dec_value k)) else None)"

text \<open>
  \<open>v[k]\<close> for a value \<open>v\<close> that is not \<open>null\<close> or \<open>undefined\<close>: own properties only.
  This is what JavaScript reads for the names the script is written for: a date key (a text
  of digits and hyphens, \<open>date_chars\<close> below) looked up in the cache, and the fields
  \<open>ts\<close>, \<open>status\<close>, \<open>name\<close>, \<open>title\<close> and \<open>type\<close> of entries and payloads.  None of
  these names is inherited from a prototype or is the \<open>length\<close> of an array or a string.
  For a key such as \<open>constructor\<close>, \<open>toString\<close>, \<open>__proto__\<close> or \<open>length\<close> JavaScript
  finds an inherited or built-in property where \<open>js_get\<close> finds none; the classification
  of a cache miss and the start of a lookup by \<open>render\<close> are therefore stated for date keys.
\<close>

definition js_get :: "jsval \<Rightarrow> string \<Rightarrow> jsval" where
  "js_get v k =
     (case v of
        JObj kvs \<Rightarrow> (case map_of kvs k of Some x \<Rightarrow> x | None \<Rightarrow> JUndefined)
      | JArr xs \<Rightarrow>
          (case array_index k of
             Some i \<Rightarrow> if i < length xs then xs ! i else JUndefined
           | None \<Rightarrow> JUndefined)
      | _ \<Rightarrow> JUndefined)"

text \<open>\<open>o[k] = v\<close> on the property list of an object: in place, or appended.\<close>

fun obj_put :: "(string \<times> jsval) list \<Rightarrow> string \<Rightarrow> jsval \<Rightarrow> (string \<times> jsval) list" where
  "obj_put [] k v = [(k, v)]"
| "obj_put ((k', v') # kvs) k v =
     (if k' = k then (k, v) # kvs else (k', v') # obj_put kvs k v)"

section \<open>Civil dates\<close>

text \<open>
  What JavaScript does outside the part of the language modelled here is left to two
  parameters, so that every theorem holds whatever they are.  \<open>parse_other\<close> stands for
  \<open>ymdToUTCDate\<close> on a text that holds a character other than a digit or a hyphen
  (white space, a sign, a fraction, an exponent, a radix prefix: \<open>Number\<close> accepts some of
  them); with three arguments \<open>Date.UTC\<close> can only give an Invalid Date (\<open>None\<close>) or a
  whole number of days.  \<open>stale_other\<close> stands for the test
  \<open>(Date.now() - v.ts) > CACHE_TTL_MS\<close> when \<open>v.ts\<close> is truthy and not a number or a
  boolean, where the subtraction first coerces \<open>v.ts\<close>.
\<close>

record engine =
  parse_other :: "string \<Rightarrow> int option"
  stale_other :: "jsval \<Rightarrow> int \<Rightarrow> bool"

definition date_chars :: "string \<Rightarrow> bool" where
  "date_chars s = list_all (\<lambda>c. is_digit c \<or> c = CHR ''-'') s"

text \<open>
  \<open>Number\<close> on one piece of a split text of digits and hyphens: the decimal value, and
  0 for the empty piece.
\<close>

definition Number_piece :: "string \<Rightarrow> jsnum" where
  "Number_piece s = Fin (dec_value s)"

definition ymdToUTCDate :: "engine \<Rightarrow> string \<Rightarrow> jsnum" where
  "ymdToUTCDate E dateStr =
     (if date_chars dateStr then
        (case map Number_piece (split_on CHR ''-'' dateStr) of
           y # m # d # _ \<Rightarrow> Date_UTC y (js_plus m (- 1)) d
         | [y, m] \<Rightarrow> Date_UTC y (js_plus m (- 1)) NaN
         | [y] \<Rightarrow> Date_UTC y NaN NaN
         | [] \<Rightarrow> NaN)
      else (case parse_other E dateStr of None \<Rightarrow> NaN | Some day \<Rightarrow> TimeClip (day * MS_PER_DAY)))"

definition utcDateToYMD :: "jsnum \<Rightarrow> string" where
  "utcDateToYMD utcDate =
     (let y = getUTCFullYear utcDate;
          m = js_plus (getUTCMonth utcDate) 1;
          d = getUTCDate utcDate
      in String_num y @ ''-'' @ pad2 m @ ''-'' @ pad2 d)"

subsection \<open>Weeks and periods\<close>

definition mondayStartUTC :: "jsnum \<Rightarrow> jsnum" where
  "mondayStartUTC utcDate =
     (case utcDate of
        NaN \<Rightarrow> NaN
      | Fin t \<Rightarrow> (let dow = WeekDay t; delta = (dow + 6) mod 7
                 in TimeClip (t - delta * MS_PER_DAY)))"

text \<open>
  \<open>Math.floor((b - a) / MS_PER_DAY / 7) + 1\<close>.  The script passes dates at UTC midnight,
  for which both divisions are exact in doubles.
\<close>

definition week_number :: "jsnum \<Rightarrow> jsnum \<Rightarrow> jsnum" where
  "week_number a b =
     (case (a, b) of
        (Fin x, Fin y) \<Rightarrow> Fin ((y - x) div MS_PER_DAY div 7 + 1)
      | _ \<Rightarrow> NaN)"

record week_pos =
  wk_idx :: jsnum
  wk_total :: jsnum
  wk_remain :: jsnum

definition weekIndexAndRemaining :: "jsnum \<Rightarrow> jsnum \<Rightarrow> jsnum \<Rightarrow> week_pos" where
  "weekIndexAndRemaining utcDate periodStartUTC periodEndUTC =
     (let firstWeekStart = mondayStartUTC periodStartUTC;
          thisWeekStart = mondayStartUTC utcDate;
          lastWeekStart = mondayStartUTC periodEndUTC;
          idx = week_number firstWeekStart thisWeekStart;
          total = week_number firstWeekStart lastWeekStart;
          remain = (case (total, idx) of (Fin t, Fin i) \<Rightarrow> Fin (max 0 (t - i)) | _ \<Rightarrow> NaN)
      in \<lparr>wk_idx = idx, wk_total = total, wk_remain = remain\<rparr>)"

record year_period =
  yp_y :: jsnum
  yp_start :: jsnum
  yp_end :: jsnum

definition getYearPeriodFor :: "jsnum \<Rightarrow> year_period" where
  "getYearPeriodFor utcDate =
     (let y = getUTCFullYear utcDate
      in \<lparr>yp_y = y, yp_start = Date_UTC y (Fin 0) (Fin 1), yp_end = Date_UTC y (Fin 11) (Fin 31)\<rparr>)"

record fiscal_period =
  fyStart :: jsnum
  fyEnd :: jsnum

text \<open>\<open>a >= b\<close> on two dates compares the time values; it is false when one is \<open>NaN\<close>.\<close>

definition date_ge :: "jsnum \<Rightarrow> jsnum \<Rightarrow> bool" where
  "date_ge a b = (case (a, b) of (Fin x, Fin y) \<Rightarrow> y \<le> x | _ \<Rightarrow> False)"

definition getFiscalPeriodFor :: "jsnum \<Rightarrow> fiscal_period" where
  "getFiscalPeriodFor utcDate =
     (let y = getUTCFullYear utcDate;
          apr1This = Date_UTC y (Fin 3) (Fin 1);
          start = (if date_ge utcDate apr1This then apr1This
                   else Date_UTC (js_plus y (- 1)) (Fin 3) (Fin 1));
          fin = Date_UTC (js_plus (getUTCFullYear start) 1) (Fin 2) (Fin 31)
      in \<lparr>fyStart = start, fyEnd = fin\<rparr>)"

text \<open>
  The label of the distance from today.  Its Japanese text is kept as structure: the
  parts that are pushed, and the number printed in the parentheses.
\<close>

datatype diff_part = Weeks int | Days int | ZeroDays

datatype diff_label =
    DiffToday
  | DiffLater "diff_part list" jsnum
  | DiffEarlier "diff_part list" jsnum

definition weeksDaysLabelFromDiffDays :: "jsnum \<Rightarrow> diff_label" where
  "weeksDaysLabelFromDiffDays diffDays =
     (case diffDays of
        NaN \<Rightarrow> DiffEarlier [ZeroDays] NaN
      | Fin n \<Rightarrow>
          if n = 0 then DiffToday
          else
            (let a = \<bar>n\<bar>; w = a div 7; d = a mod 7;
                 parts = (if w \<noteq> 0 then [Weeks w] else []) @ (if d \<noteq> 0 then [Days d] else []);
                 body = (if parts \<noteq> [] then parts else [ZeroDays])
             in if n > 0 then DiffLater body (Fin a) else DiffEarlier body (Fin a)))"

text \<open>\<open>Math.round((a - b) / MS_PER_DAY)\<close>, exact for dates at UTC midnight.\<close>

definition round_days :: "jsnum \<Rightarrow> jsnum \<Rightarrow> jsnum" where
  "round_days a b =
     (case (a, b) of
        (Fin x, Fin y) \<Rightarrow> Fin ((2 * (x - y) + MS_PER_DAY) div (2 * MS_PER_DAY))
      | _ \<Rightarrow> NaN)"

section \<open>The holiday cache\<close>

text \<open>
  The persisted store is one item of \<open>localStorage\<close>.  It is modelled by what
  \<open>JSON.parse\<close> makes of the item: \<open>None\<close> when there is no item, when it is the empty
  string, or when reading or parsing it throws.  \<open>JSON.stringify\<close> followed by
  \<open>JSON.parse\<close> gives back the same value, except that a property of an array that is
  not an index is not written.
\<close>

type_synonym storage = "jsval option"

definition loadCache :: "storage \<Rightarrow> jsval" where
  "loadCache st =
     (case st of
        Some (JObj kvs) \<Rightarrow> JObj kvs
      | Some (JArr xs) \<Rightarrow> JArr xs
      | _ \<Rightarrow> JObj [])"

text \<open>
  \<open>saveCache\<close> swallows every exception of \<open>JSON.stringify\<close> and \<open>setItem\<close>; whether the
  write goes through is the environment's choice \<open>ok\<close>.
\<close>

definition saveCache :: "bool \<Rightarrow> storage \<Rightarrow> jsval \<Rightarrow> storage" where
  "saveCache ok st cache = (if ok then Some cache else st)"

definition ts_stale :: "engine \<Rightarrow> int \<Rightarrow> jsval \<Rightarrow> bool" where
  "ts_stale E now ts =
     (case ts of
        JNum t \<Rightarrow> now - t > CACHE_TTL_MS
      | JBool b \<Rightarrow> now - (if b then 1 else 0) > CACHE_TTL_MS
      | other \<Rightarrow> stale_other E other now)"

definition getCached :: "engine \<Rightarrow> int \<Rightarrow> storage \<Rightarrow> string \<Rightarrow> jsval option" where
  "getCached E now st dateStr =
     (let cache = loadCache st;
          v = js_get cache dateStr
      in if \<not> truthy v then None
         else if truthy (js_get v ''ts'') \<and> ts_stale E now (js_get v ''ts'') then None
         else Some v)"

text \<open>
  \<open>cache[dateStr] = entry\<close> as the next \<open>loadCache\<close> will see it, for a date key: an array
  grows up to an index (the holes are written as \<open>null\<close>) and drops any other property.
  Two keys that are not date keys behave otherwise in JavaScript and are not modelled: the
  assignment to \<open>length\<close> of an array throws a RangeError (which \<open>getHolidayByAPI\<close> would
  catch and report as \<open>network\<close>, writing nothing), and the assignment to \<open>__proto__\<close>
  sets the prototype instead of a property.
\<close>

definition cache_set :: "jsval \<Rightarrow> string \<Rightarrow> jsval \<Rightarrow> jsval" where
  "cache_set cache k entry =
     (case cache of
        JObj kvs \<Rightarrow> JObj (obj_put kvs k entry)
      | JArr xs \<Rightarrow>
          (case array_index k of
             Some i \<Rightarrow> JArr ((xs @ replicate (Suc i - length xs) JNull)[i := entry])
           | None \<Rightarrow> JArr xs)
      | other \<Rightarrow> other)"

definition setCached :: "int \<Rightarrow> bool \<Rightarrow> storage \<Rightarrow> string \<Rightarrow> (string \<times> jsval) list \<Rightarrow> storage" where
  "setCached now ok st dateStr payload =
     (let cache = loadCache st;
          entry = JObj (obj_put payload ''ts'' (JNum now))
      in saveCache ok st (cache_set cache dateStr entry))"

section \<open>The holiday resolver\<close>

text \<open>
  What \<open>fetchWithTimeout\<close> and \<open>res.json()\<close> deliver: the promise of \<open>fetch\<close> rejects (the
  timeout aborts it, the network or CORS fails), or there is a response with a status
  and a body that \<open>res.json()\<close> parses or rejects.
\<close>

datatype body = Unparseable | Parsed jsval

datatype fetch_outcome = Rejected | Response nat body

definition res_ok :: "nat \<Rightarrow> bool" where
  "res_ok status = (200 \<le> status \<and> status \<le> 299)"

definition normalizeHolidayResponse :: "jsval \<Rightarrow> (jsval \<times> jsval) option" where
  "normalizeHolidayResponse json =
     (if \<not> truthy json then None
      else case json of
        JArr xs \<Rightarrow>
          (let first = (case xs of [] \<Rightarrow> JUndefined | x # _ \<Rightarrow> x) in
           if truthy first \<and> (case first of JObj _ \<Rightarrow> True | JArr _ \<Rightarrow> True | _ \<Rightarrow> False)
           then Some (js_or (js_get first ''name'') (js_or (js_get first ''title'') (JStr [])),
                      js_or (js_get first ''type'') (JStr []))
           else None)
      | JObj kvs \<Rightarrow>
          Some (js_or (js_get json ''name'') (js_or (js_get json ''title'') (JStr [])),
                js_or (js_get json ''type'') (JStr []))
      | _ \<Rightarrow> None)"

definition not_payload :: "(string \<times> jsval) list" where
  "not_payload = [(''status'', JStr ''not'')]"

definition holiday_payload :: "jsval \<Rightarrow> jsval \<Rightarrow> (string \<times> jsval) list" where
  "holiday_payload name type =
     [(''status'', JStr ''holiday''), (''name'', name), (''type'', js_or type (JStr []))]"

definition error_result :: "string \<Rightarrow> jsval" where
  "error_result message = JObj [(''status'', JStr ''error''), (''message'', JStr message)]"

text \<open>
  \<open>getHolidayByAPI\<close> after a cache miss, from the moment the fetch settles: the result and
  the store it leaves.  \<open>now\<close> is \<open>Date.now()\<close> at the write.
\<close>

definition getHolidayByAPI_settle ::
    "int \<Rightarrow> bool \<Rightarrow> storage \<Rightarrow> string \<Rightarrow> fetch_outcome \<Rightarrow> jsval \<times> storage" where
  "getHolidayByAPI_settle now ok st dateStr outcome =
     (case outcome of
        Rejected \<Rightarrow> (error_result ''network'', st)
      | Response status b \<Rightarrow>
          if status = 404 then (JObj not_payload, setCached now ok st dateStr not_payload)
          else if \<not> res_ok status
            then (error_result (''HTTP '' @ String_num (Fin (int status))), st)
          else
            (case b of
               Unparseable \<Rightarrow> (error_result ''network'', st)
             | Parsed json \<Rightarrow>
                 (case normalizeHolidayResponse json of
                    Some (name, type) \<Rightarrow>
                      if truthy name
                      then (JObj (holiday_payload name type),
                            setCached now ok st dateStr (holiday_payload name type))
                      else (error_result ''unexpected response'', st)
                  | None \<Rightarrow> (error_result ''unexpected response'', st))))"

text \<open>
  The whole of \<open>getHolidayByAPI\<close>, for a call that nothing else interleaves with: a fresh
  entry is returned at once and the transport is not called (\<open>None\<close>); otherwise the URL
  is fetched and the outcome of the fetch decides.  \<open>now\<close> is \<open>Date.now()\<close> at the cache
  check and \<open>now'\<close> at the write.  The result is the value the promise resolves to, the
  store, and the URL that was requested, if any.  (Under \<open>render\<close> other calls can run
  between the two halves; \<open>complete\<close> below takes the store as it is when the fetch
  settles.)
\<close>

definition getHolidayByAPI ::
    "engine \<Rightarrow> int \<Rightarrow> int \<Rightarrow> bool \<Rightarrow> storage \<Rightarrow> string \<Rightarrow> fetch_outcome
      \<Rightarrow> jsval \<times> storage \<times> string option" where
  "getHolidayByAPI E now now' ok st dateStr outcome =
     (case getCached E now st dateStr of
        Some cached \<Rightarrow> (cached, st, None)
      | None \<Rightarrow>
          (let url = API_BASE @ encodeURIComponent dateStr;
               (r, st') = getHolidayByAPI_settle now' ok st dateStr outcome
           in (r, st', Some url)))"

section \<open>The page and the request counter\<close>

text \<open>
  What the script writes into the page.  The Japanese texts are constructors, named
  after what they say; texts that carry a computed value keep the value.
\<close>

datatype label =
    Dash
  | Blank
  | Ascii string
  | DowLabel jsnum
  | CalendarWeekend
  | CalendarWeekday
  | Judging
  | HolidayYes
  | HolidayNo
  | FetchFailed
  | BusinessDay
  | ClosedDay
  | DiffText diff_label
  | YearWeek jsnum jsnum
  | FiscalWeek jsnum jsnum jsnum
  | ValueText jsval
  | KindNote jsval
  | NetworkNote

datatype badge_label =
    BWeekend | BWeekday | BJudging | BHoliday | BJudgeFailed | BBusiness | BClosed

type_synonym badge = "badge_label \<times> string"

record page =
  datePretty :: label
  badges :: "badge list"
  dowText :: label
  calendarDayText :: label
  holidayText :: label
  holidayNameRow_hidden :: bool
  holidayNameText :: label
  businessDayText :: label
  diffText :: label
  yearWeekText :: label
  fiscalWeekText :: label
  noteText :: label

text \<open>
  The state the script runs on: the counter \<open>lastReqId\<close>, the page, the persisted store,
  and the URLs that have been requested from the transport.
\<close>

record world =
  lastReqId :: nat
  screen :: page
  store :: storage
  requests :: "string list"

text \<open>
  \<open>++lastReqId\<close> on a double: exact up to \<open>2^53\<close>, where adding one rounds back to
  \<open>2^53\<close>.  The counter starts at 0 and nothing else writes it.
\<close>

definition js_incr :: "nat \<Rightarrow> nat" where
  "js_incr n = (if n < 2 ^ 53 then n + 1 else n)"

definition weekend_badge :: "bool \<Rightarrow> badge" where
  "weekend_badge isWeekend =
     (if isWeekend then (BWeekend, ''ck-badge ck-badge-warn'')
      else (BWeekday, ''ck-badge ck-badge-accent''))"

definition setHolidayName :: "jsval \<Rightarrow> page \<Rightarrow> page" where
  "setHolidayName name p =
     (if truthy name then p\<lparr>holidayNameRow_hidden := False, holidayNameText := ValueText name\<rparr>
      else p\<lparr>holidayNameRow_hidden := True, holidayNameText := Dash\<rparr>)"

text \<open>
  A call of \<open>render\<close> that is waiting for its lookup: what the continuation after
  \<open>await\<close> still holds (\<open>reqId\<close>, \<open>isWeekend\<close>, \<open>dateStr\<close>), and the fresh cache entry when
  \<open>getCached\<close> found one, in which case the transport is never called.
\<close>

record pending =
  reqId :: nat
  isWeekend :: bool
  dateStr :: string
  cached :: "jsval option"

text \<open>
  \<open>render\<close> up to its \<open>await\<close>.  \<open>now\<close> is \<open>Date.now()\<close> and \<open>today\<close> is what
  \<open>getTokyoTodayYMD()\<close> returns.  An empty date string clears the page and returns
  without touching the counter.
\<close>

definition render_start ::
    "engine \<Rightarrow> int \<Rightarrow> string \<Rightarrow> string \<Rightarrow> world \<Rightarrow> pending option \<times> world" where
  "render_start E now today ds w =
     (let p0 = setHolidayName (JStr []) ((screen w)\<lparr>badges := [], noteText := Blank\<rparr>) in
      if ds = [] then
        (None, w\<lparr>screen := p0\<lparr>datePretty := Dash, dowText := Dash, calendarDayText := Dash,
                                 holidayText := Dash, businessDayText := Dash, diffText := Dash,
                                 yearWeekText := Dash, fiscalWeekText := Dash\<rparr>\<rparr>)
      else
        (let targetUTC = ymdToUTCDate E ds;
             dow = getUTCDay targetUTC;
             weekend = (dow = Fin 0 \<or> dow = Fin 6);
             todayUTC = ymdToUTCDate E today;
             diffDays = round_days targetUTC todayUTC;
             yPer = getYearPeriodFor targetUTC;
             yw = weekIndexAndRemaining targetUTC (yp_start yPer) (yp_end yPer);
             fPer = getFiscalPeriodFor targetUTC;
             fw = weekIndexAndRemaining targetUTC (fyStart fPer) (fyEnd fPer);
             r = js_incr (lastReqId w);
             p1 = p0\<lparr>datePretty := Ascii ds,
                     dowText := DowLabel dow,
                     calendarDayText := (if weekend then CalendarWeekend else CalendarWeekday),
                     badges := [weekend_badge weekend, (BJudging, ''ck-badge ck-badge'')],
                     diffText := DiffText (weeksDaysLabelFromDiffDays diffDays),
                     yearWeekText := YearWeek (wk_idx yw) (wk_remain yw),
                     fiscalWeekText :=
                       FiscalWeek (getUTCFullYear (fyStart fPer)) (wk_idx fw) (wk_remain fw),
                     holidayText := Judging,
                     businessDayText := Judging\<rparr>;
             hit = getCached E now (store w) ds
         in (Some \<lparr>reqId = r, isWeekend = weekend, dateStr = ds, cached = hit\<rparr>,
             w\<lparr>lastReqId := r, screen := p1,
               requests := (case hit of
                              Some _ \<Rightarrow> requests w
                            | None \<Rightarrow> requests w @ [API_BASE @ encodeURIComponent ds])\<rparr>)))"

text \<open>What \<open>render\<close> writes once its own result has arrived (after the check of \<open>reqId\<close>).\<close>

definition show_result :: "bool \<Rightarrow> jsval \<Rightarrow> page \<Rightarrow> page" where
  "show_result weekend result p =
     (let b0 = [weekend_badge weekend];
          status = js_get result ''status'';
          isHoliday = (status = JStr ''holiday'');
          holidayName = js_or (js_get result ''name'') (JStr []);
          holidayType = js_or (js_get result ''type'') (JStr []);
          p1 =
            (if status = JStr ''holiday'' then
               (setHolidayName holidayName (p\<lparr>holidayText := HolidayYes\<rparr>))
                 \<lparr>badges := b0 @ [(BHoliday, ''ck-badge ck-badge-accent'')],
                  noteText := (if truthy holidayType then KindNote holidayType else noteText p)\<rparr>
             else if status = JStr ''not'' then
               (setHolidayName (JStr []) (p\<lparr>holidayText := HolidayNo\<rparr>))
                 \<lparr>badges := b0, noteText := Blank\<rparr>
             else
               (setHolidayName (JStr []) (p\<lparr>holidayText := FetchFailed\<rparr>))
                 \<lparr>badges := b0 @ [(BJudgeFailed, ''ck-badge ck-badge-warn'')],
                  noteText := NetworkNote\<rparr>);
          isBusinessDay = (\<not> weekend \<and> \<not> isHoliday)
      in p1\<lparr>businessDayText := (if isBusinessDay then BusinessDay else ClosedDay),
             badges := badges p1 @
               [if isBusinessDay then (BBusiness, ''ck-badge ck-badge-accent'')
                else (BClosed, ''ck-badge ck-badge-warn'')]\<rparr>)"

text \<open>\<open>render\<close> from its \<open>await\<close> on: a result whose \<open>reqId\<close> is not the last one is dropped.\<close>

definition render_resume :: "pending \<Rightarrow> jsval \<Rightarrow> world \<Rightarrow> world" where
  "render_resume q result w =
     (if reqId q \<noteq> lastReqId w then w
      else w\<lparr>screen := show_result (isWeekend q) result (screen w)\<rparr>)"

text \<open>
  The lookup of a waiting \<open>render\<close> completes: a cache hit resolves to the entry; a miss
  runs the rest of \<open>getHolidayByAPI\<close> on the outcome of the fetch, which may write the
  cache, and hands its result to the continuation of \<open>render\<close>.
\<close>

definition complete :: "pending \<Rightarrow> fetch_outcome \<Rightarrow> int \<Rightarrow> bool \<Rightarrow> world \<Rightarrow> world" where
  "complete q outcome now ok w =
     (case cached q of
        Some v \<Rightarrow> render_resume q v w
      | None \<Rightarrow>
          (let (r, st') = getHolidayByAPI_settle now ok (store w) (dateStr q) outcome
           in render_resume q r (w\<lparr>store := st'\<rparr>)))"

text \<open>
  The script is single-threaded: its runs are sequences of calls of \<open>render\<close> (an event of
  the page) and completions of lookups, in any order.
\<close>

datatype event =
    Render int string string
  | Complete pending fetch_outcome int bool

fun step :: "engine \<Rightarrow> event \<Rightarrow> world \<Rightarrow> world" where
  "step E (Render now today ds) w = snd (render_start E now today ds w)"
| "step E (Complete q outcome now ok) w = complete q outcome now ok w"

definition run :: "engine \<Rightarrow> event list \<Rightarrow> world \<Rightarrow> world" where
  "run E evs w = foldl (\<lambda>w' ev. step E ev w') w evs"

definition blank_page :: page where
  "blank_page =
     \<lparr>datePretty = Dash, badges = [], dowText = Dash, calendarDayText = Dash,
      holidayText = Dash, holidayNameRow_hidden = True, holidayNameText = Dash,
      businessDayText = Dash, diffText = Dash, yearWeekText = Dash, fiscalWeekText = Dash,
      noteText = Blank\<rparr>"

definition initial_world :: world where
  "initial_world = \<lparr>lastReqId = 0, screen = blank_page, store = None, requests = []\<rparr>"

text \<open>An engine for evaluating examples: nothing outside the modelled part is accepted.\<close>

definition plain_engine :: engine where
  "plain_engine = \<lparr>parse_other = (\<lambda>_. None), stale_other = (\<lambda>_ _. False)\<rparr>"

section \<open>Notions used to state the properties\<close>

text \<open>A store whose item parses to an array, which \<open>loadCache\<close> hands back as the cache.\<close>

definition stored_array :: "storage \<Rightarrow> bool" where
  "stored_array st = (case st of Some (JArr xs) \<Rightarrow> True | _ \<Rightarrow> False)"

text \<open>The values a cache holds, and the stores none of whose entries has status \<open>error\<close>.\<close>

definition cache_values :: "jsval \<Rightarrow> jsval list" where
  "cache_values cache =
     (case cache of JObj kvs \<Rightarrow> map snd kvs | JArr xs \<Rightarrow> xs | _ \<Rightarrow> [])"

definition error_free :: "storage \<Rightarrow> bool" where
  "error_free st =
     list_all (\<lambda>v. js_get v ''status'' \<noteq> JStr ''error'') (cache_values (loadCache st))"

text \<open>
  The classification as the specification words it.  The subject of a payload is the
  payload itself when it is an object, and the first element of an array when that is an
  object; its name is the \<open>name\<close> field when that is non-empty (truthy), else the
  \<open>title\<close> field when that is; its type is the \<open>type\<close> field or the empty string.
\<close>

definition payload_subject :: "jsval \<Rightarrow> jsval option" where
  "payload_subject json =
     (case json of
        JObj kvs \<Rightarrow> Some json
      | JArr xs \<Rightarrow> (case xs of JObj kvs # _ \<Rightarrow> Some (JObj kvs) | _ \<Rightarrow> None)
      | _ \<Rightarrow> None)"

definition payload_name :: "jsval \<Rightarrow> jsval option" where
  "payload_name json =
     (case payload_subject json of
        None \<Rightarrow> None
      | Some obj \<Rightarrow>
          if truthy (js_get obj ''name'') then Some (js_get obj ''name'')
          else if truthy (js_get obj ''title'') then Some (js_get obj ''title'')
          else None)"

definition payload_type :: "jsval \<Rightarrow> jsval" where
  "payload_type json =
     (case payload_subject json of
        None \<Rightarrow> JStr []
      | Some obj \<Rightarrow> if truthy (js_get obj ''type'') then js_get obj ''type'' else JStr [])"

definition classify :: "fetch_outcome \<Rightarrow> jsval" where
  "classify outcome =
     (case outcome of
        Rejected \<Rightarrow> error_result ''network''
      | Response status b \<Rightarrow>
          if status = 404 then JObj [(''status'', JStr ''not'')]
          else if res_ok status then
            (case b of
               Unparseable \<Rightarrow> error_result ''network''
             | Parsed json \<Rightarrow>
                 (case payload_name json of
                    Some name \<Rightarrow>
                      JObj [(''status'', JStr ''holiday''), (''name'', name),
                            (''type'', payload_type json)]
                  | None \<Rightarrow> error_result ''unexpected response''))
          else error_result (''HTTP '' @ show_nat status))"

text \<open>What the lookup of a waiting \<open>render\<close> resolves to, given the outcome of its fetch.\<close>

definition resolved :: "pending \<Rightarrow> fetch_outcome \<Rightarrow> jsval" where
  "resolved q outcome =
     (case cached q of
        Some v \<Rightarrow> v
      | None \<Rightarrow> fst (getHolidayByAPI_settle 0 False None (dateStr q) outcome))"

text \<open>The completions of lookups other than the one with request id \<open>r\<close>.\<close>

fun other_completion :: "nat \<Rightarrow> event \<Rightarrow> bool" where
  "other_completion r (Render now today ds) = False"
| "other_completion r (Complete q outcome now ok) = (reqId q \<noteq> r)"

text \<open>
  The week position as the specification words it, on civil dates given by their day
  number (days since 1970-01-01, a Thursday).  The Monday anchor of a date is the Monday
  of the week that contains it: the first Monday among the date and the six days before
  it.
\<close>

definition is_monday :: "int \<Rightarrow> bool" where
  "is_monday day = ((day + 4) mod 7 = 1)"

definition mondayAnchor :: "int \<Rightarrow> int" where
  "mondayAnchor day =
     (case find is_monday (map (\<lambda>i. day - i) [0, 1, 2, 3, 4, 5, 6]) of
        Some m \<Rightarrow> m
      | None \<Rightarrow> day)"

definition daysBetween :: "int \<Rightarrow> int \<Rightarrow> int" where
  "daysBetween a b = b - a"

definition weekPosition :: "int \<Rightarrow> int \<Rightarrow> int \<Rightarrow> int \<times> int \<times> int" where
  "weekPosition date start fin =
     (let firstMonday = mondayAnchor start;
          lastMonday = mondayAnchor fin;
          thisMonday = mondayAnchor date;
          index = daysBetween firstMonday thisMonday div 7 + 1;
          totalWeeks = daysBetween firstMonday lastMonday div 7 + 1
      in (index, totalWeeks, max 0 (totalWeeks - index)))"

text \<open>The \<open>Date\<close> at UTC midnight of a day number.\<close>

definition civil :: "int \<Rightarrow> jsnum" where
  "civil day = Fin (day * MS_PER_DAY)"

text \<open>
  The canonical key of a civil date, and the days of each month, to state which keys
  survive the round trip through \<open>ymdToUTCDate\<close> and \<open>utcDateToYMD\<close>.
\<close>

definition leap_year :: "int \<Rightarrow> bool" where
  "leap_year y = (y mod 4 = 0 \<and> (y mod 100 \<noteq> 0 \<or> y mod 400 = 0))"

definition days_in_month :: "int \<Rightarrow> int \<Rightarrow> int" where
  "days_in_month y m =
     (if m = 2 then (if leap_year y then 29 else 28)
      else if m = 4 \<or> m = 6 \<or> m = 9 \<or> m = 11 then 30 else 31)"

definition date_key :: "int \<Rightarrow> int \<Rightarrow> int \<Rightarrow> string" where
  "date_key y m d = String_num (Fin y) @ ''-'' @ pad2 (Fin m) @ ''-'' @ pad2 (Fin d)"

section \<open>Years and days\<close>

lemma div_succ:
  fixes a k :: int
  assumes "0 < k"
  shows "(a + 1) div k = (if (a + 1) mod k = 0 then a div k + 1 else a div k)"
proof -
  define q where "q = a div k"
  define r where "r = a mod k"
  have a: "a = k * q + r" and r: "0 \<le> r" "r < k"
    using assms by (simp_all add: q_def r_def)
  show ?thesis
  proof (cases "r + 1 = k")
    case True
    have e: "a + 1 = k * (q + 1) + 0" using a True by (simp add: algebra_simps)
    have "(a + 1) div k = q + 1" by (rule int_div_pos_eq [OF e]) (use assms in simp_all)
    moreover have "(a + 1) mod k = 0" by (rule int_mod_pos_eq [OF e]) (use assms in simp_all)
    ultimately show ?thesis by (simp add: q_def)
  next
    case False
    have e: "a + 1 = k * q + (r + 1)" using a by simp
    have lt: "r + 1 < k" using False r by simp
    have "(a + 1) div k = q" by (rule int_div_pos_eq [OF e]) (use r lt in simp_all)
    moreover have "(a + 1) mod k = r + 1" by (rule int_mod_pos_eq [OF e]) (use r lt in simp_all)
    ultimately show ?thesis using r by (simp add: q_def)
  qed
qed

lemma mod4_shift: "((y::int) - 1968) mod 4 = 0 \<longleftrightarrow> y mod 4 = 0"
  by (simp add: mod_eq_0_iff_dvd dvd_diff_left_iff)

lemma mod100_shift: "((y::int) - 1900) mod 100 = 0 \<longleftrightarrow> y mod 100 = 0"
  by (simp add: mod_eq_0_iff_dvd dvd_diff_left_iff)

lemma mod400_shift: "((y::int) - 1600) mod 400 = 0 \<longleftrightarrow> y mod 400 = 0"
  by (simp add: mod_eq_0_iff_dvd dvd_diff_left_iff)

lemma mod400_100: "(y::int) mod 400 = 0 \<Longrightarrow> y mod 100 = 0"
  using dvd_trans [of 100 400 y] by (simp add: mod_eq_0_iff_dvd)

lemma mod100_4: "(y::int) mod 100 = 0 \<Longrightarrow> y mod 4 = 0"
  using dvd_trans [of 4 100 y] by (simp add: mod_eq_0_iff_dvd)

text \<open>The closed form of \<open>DayFromYear\<close> agrees with counting the days of each year.\<close>

lemma DayFromYear_Suc: "DayFromYear (y + 1) = DayFromYear y + DaysInYear y"
proof -
  have a: "(y + 1 - 1969) div 4 =
      (if y mod 4 = 0 then (y - 1969) div 4 + 1 else (y - 1969) div 4)"
    using div_succ [of 4 "y - 1969"] mod4_shift [of y] by (simp add: algebra_simps)
  have b: "(y + 1 - 1901) div 100 =
      (if y mod 100 = 0 then (y - 1901) div 100 + 1 else (y - 1901) div 100)"
    using div_succ [of 100 "y - 1901"] mod100_shift [of y] by (simp add: algebra_simps)
  have c: "(y + 1 - 1601) div 400 =
      (if y mod 400 = 0 then (y - 1601) div 400 + 1 else (y - 1601) div 400)"
    using div_succ [of 400 "y - 1601"] mod400_shift [of y] by (simp add: algebra_simps)
  show ?thesis
    unfolding DayFromYear_def DaysInYear_def a b c
    using mod400_100 [of y] mod100_4 [of y] by auto
qed

lemma DaysInYear_cases: "DaysInYear y = 365 \<or> DaysInYear y = 366"
  by (simp add: DaysInYear_def)

lemma DayFromYear_less_Suc: "DayFromYear y < DayFromYear (y + 1)"
  using DaysInYear_cases [of y] by (auto simp: DayFromYear_Suc)

termination year_down
proof (relation "measure (\<lambda>(d, y). nat (DayFromYear y - d))")
  show "wf (measure (\<lambda>(d, y). nat (DayFromYear y - d)))" by simp
next
  fix d y :: int
  assume "d < DayFromYear y"
  moreover have "DayFromYear (y - 1) < DayFromYear y"
    using DayFromYear_less_Suc [of "y - 1"] by simp
  ultimately show "((d, y - 1), (d, y)) \<in> measure (\<lambda>(d, y). nat (DayFromYear y - d))"
    by simp
qed

termination year_up
proof (relation "measure (\<lambda>(d, y). nat (d - DayFromYear y))")
  show "wf (measure (\<lambda>(d, y). nat (d - DayFromYear y)))" by simp
next
  fix d y :: int
  assume "DayFromYear (y + 1) \<le> d"
  then show "((d, y + 1), (d, y)) \<in> measure (\<lambda>(d, y). nat (d - DayFromYear y))"
    using DayFromYear_less_Suc [of y] by simp
qed

declare year_down.simps [simp del] year_up.simps [simp del]

declare show_nat.simps [simp del]

lemma DayFromYear_mono_less: "y < y' \<Longrightarrow> DayFromYear y < DayFromYear y'"
proof -
  have "DayFromYear y < DayFromYear (y + 1 + int n)" for n
  proof (induction n)
    case 0
    show ?case using DayFromYear_less_Suc [of y] by simp
  next
    case (Suc n)
    have "DayFromYear (y + 1 + int n) < DayFromYear (y + 1 + int n + 1)"
      by (rule DayFromYear_less_Suc)
    with Suc show ?case by (simp add: add.assoc add.commute)
  qed
  moreover assume "y < y'"
  then have "y' = y + 1 + int (nat (y' - y - 1))" by simp
  ultimately show ?thesis by metis
qed

lemma DayFromYear_mono: "y \<le> y' \<Longrightarrow> DayFromYear y \<le> DayFromYear y'"
  using DayFromYear_mono_less [of y y'] by (cases "y = y'") auto

lemma year_down_le: "DayFromYear (year_down d y) \<le> d"
  by (induction d y rule: year_down.induct) (simp add: year_down.simps)

lemma year_up_bounds:
  "DayFromYear y \<le> d \<Longrightarrow>
     DayFromYear (year_up d y) \<le> d \<and> d < DayFromYear (year_up d y + 1)"
  by (induction d y rule: year_up.induct) (simp add: year_up.simps)

text \<open>\<open>YearFromDay d\<close> is the year that contains day \<open>d\<close>, and the only one.\<close>

lemma YearFromDay_bounds:
  "DayFromYear (YearFromDay d) \<le> d \<and> d < DayFromYear (YearFromDay d + 1)"
  unfolding YearFromDay_def by (rule year_up_bounds) (rule year_down_le)

lemma YearFromDay_unique:
  assumes "DayFromYear y \<le> d" and "d < DayFromYear (y + 1)"
  shows "YearFromDay d = y"
proof (rule ccontr)
  assume ne: "YearFromDay d \<noteq> y"
  let ?z = "YearFromDay d"
  from YearFromDay_bounds [of d]
  have z: "DayFromYear ?z \<le> d" "d < DayFromYear (?z + 1)" by simp_all
  from ne consider "?z < y" | "y < ?z" by linarith
  then show False
  proof cases
    case 1
    then have "DayFromYear (?z + 1) \<le> DayFromYear y" by (intro DayFromYear_mono) simp
    with z assms show False by simp
  next
    case 2
    then have "DayFromYear (y + 1) \<le> DayFromYear ?z" by (intro DayFromYear_mono) simp
    with z assms show False by simp
  qed
qed

section \<open>Properties of the cache\<close>

lemma map_of_obj_put_same: "map_of (obj_put kvs k v) k = Some v"
  by (induction kvs) auto

lemma map_of_obj_put_other: "k' \<noteq> k \<Longrightarrow> map_of (obj_put kvs k v) k' = map_of kvs k'"
  by (induction kvs) auto

lemma snd_set_obj_put: "x \<in> snd ` set (obj_put kvs k v) \<Longrightarrow> x = v \<or> x \<in> snd ` set kvs"
  by (induction kvs) (force split: if_splits)+

lemma js_get_obj_put_same: "js_get (JObj (obj_put kvs k v)) k = v"
  by (simp add: js_get_def map_of_obj_put_same)

lemma loadCache_cases:
  "(\<exists>kvs. loadCache st = JObj kvs) \<or> (\<exists>xs. st = Some (JArr xs) \<and> loadCache st = JArr xs)"
  by (auto simp: loadCache_def split: option.splits jsval.splits)

text \<open>
  C10.  An entry that has no \<open>ts\<close> field, or a falsy one such as 0, is returned by
  \<open>getCached\<close> whatever the clock says: the age is only looked at when \<open>ts\<close> is present and
  truthy, and then it alone decides.
\<close>

theorem getCached_ts_guard:
  assumes "js_get (loadCache st) k = v" and "truthy v"
  shows "(\<not> truthy (js_get v ''ts'') \<longrightarrow> getCached E now st k = Some v) \<and>
         (truthy (js_get v ''ts'') \<longrightarrow>
            getCached E now st k = (if ts_stale E now (js_get v ''ts'') then None else Some v))"
  using assms by (simp add: getCached_def Let_def)

theorem getCached_ts_guard_witness:
  "js_get (loadCache (Some (JObj [(''2024-01-01'', JObj [(''status'', JStr ''not'')])]))) ''2024-01-01''
      = JObj [(''status'', JStr ''not'')]
   \<and> truthy (JObj [(''status'', JStr ''not'')])
   \<and> \<not> truthy (js_get (JObj [(''status'', JStr ''not'')]) ''ts'')
   \<and> getCached plain_engine 99999999999999
        (Some (JObj [(''2024-01-01'', JObj [(''status'', JStr ''not'')])])) ''2024-01-01''
      = Some (JObj [(''status'', JStr ''not'')])"
proof -
  let ?v = "JObj [(''status'', JStr ''not'')]"
  let ?st = "Some (JObj [(''2024-01-01'', ?v)])"
  have a: "js_get (loadCache ?st) ''2024-01-01'' = ?v"
    by (simp add: loadCache_def js_get_def)
  have b: "truthy ?v" by simp
  have c: "\<not> truthy (js_get ?v ''ts'')" by (simp add: js_get_def)
  from getCached_ts_guard [OF a b, of plain_engine 99999999999999] c
  have "getCached plain_engine 99999999999999 ?st ''2024-01-01'' = Some ?v" by blast
  with a b c show ?thesis by blast
qed

text \<open>
  C4.  When the cache holds a fresh entry for a key (a truthy value whose \<open>ts\<close> is missing,
  falsy, or not older than the TTL), \<open>getHolidayByAPI\<close> resolves to that entry, leaves the
  store as it is and requests no URL, whatever the transport would have answered; a
  \<open>render\<close> of that key adds nothing to the list of requests, and the completion of its
  lookup neither requests nor writes.
\<close>

theorem fresh_entry_no_request:
  assumes "js_get (loadCache st) k = v" and "truthy v"
    and "\<not> (truthy (js_get v ''ts'') \<and> ts_stale E now (js_get v ''ts''))"
  shows "getHolidayByAPI E now now' ok st k outcome = (v, st, None) \<and>
         (k \<noteq> [] \<and> store w = st \<longrightarrow>
           requests (snd (render_start E now today k w)) = requests w \<and>
           store (snd (render_start E now today k w)) = st \<and>
           (\<exists>q. fst (render_start E now today k w) = Some q \<and> cached q = Some v \<and>
                requests (complete q outcome now' ok (snd (render_start E now today k w)))
                  = requests w \<and>
                store (complete q outcome now' ok (snd (render_start E now today k w))) = st))"
proof -
  have hit: "getCached E now st k = Some v"
    using assms by (auto simp: getCached_def Let_def)
  have "getHolidayByAPI E now now' ok st k outcome = (v, st, None)"
    by (simp add: getHolidayByAPI_def hit)
  moreover have "requests (snd (render_start E now today k w)) = requests w \<and>
           store (snd (render_start E now today k w)) = st \<and>
           (\<exists>q. fst (render_start E now today k w) = Some q \<and> cached q = Some v \<and>
                requests (complete q outcome now' ok (snd (render_start E now today k w)))
                  = requests w \<and>
                store (complete q outcome now' ok (snd (render_start E now today k w))) = st)"
    if "k \<noteq> []" and "store w = st"
    using that hit by (simp add: render_start_def Let_def complete_def render_resume_def)
  ultimately show ?thesis by blast
qed

theorem fresh_entry_no_request_witness:
  "getHolidayByAPI plain_engine 1700000000000 1700000000100 True
      (Some (JObj [(''2024-01-01'', JObj [(''status'', JStr ''not''), (''ts'', JNum 1699999999000)])]))
      ''2024-01-01'' (Response 200 (Parsed (JObj [(''name'', JStr ''X'')])))
    = (JObj [(''status'', JStr ''not''), (''ts'', JNum 1699999999000)],
       Some (JObj [(''2024-01-01'', JObj [(''status'', JStr ''not''), (''ts'', JNum 1699999999000)])]),
       None)
   \<and> requests (snd (render_start plain_engine 1700000000000 ''2024-01-02'' ''2024-01-01''
        (initial_world\<lparr>store :=
           Some (JObj [(''2024-01-01'',
             JObj [(''status'', JStr ''not''), (''ts'', JNum 1699999999000)])])\<rparr>))) = []"
proof -
  let ?v = "JObj [(''status'', JStr ''not''), (''ts'', JNum 1699999999000)]"
  let ?st = "Some (JObj [(''2024-01-01'', ?v)])"
  let ?w = "initial_world\<lparr>store := ?st\<rparr>"
  have a: "js_get (loadCache ?st) ''2024-01-01'' = ?v"
    by (simp add: loadCache_def js_get_def)
  have b: "truthy ?v" by simp
  have c: "\<not> (truthy (js_get ?v ''ts'') \<and> ts_stale plain_engine 1700000000000 (js_get ?v ''ts''))"
    by (simp add: js_get_def ts_stale_def CACHE_TTL_MS_def)
  have d: "''2024-01-01'' \<noteq> [] \<and> store ?w = ?st" by simp
  have e: "requests ?w = []" by (simp add: initial_world_def)
  from fresh_entry_no_request [OF a b c, of 1700000000100 True
      "Response 200 (Parsed (JObj [(''name'', JStr ''X'')]))" ?w "''2024-01-02''"] d e
  show ?thesis by simp
qed

text \<open>
  C5, as worded, fails at a write made when the clock reads 0: the entry gets
  \<open>ts = 0\<close>, which the guard \<open>v.ts &&\<close> takes for a missing timestamp, so the entry
  is still returned when it is older than the TTL.
\<close>

theorem cache_ttl_counterexample:
  "(CACHE_TTL_MS + 1) - 0 > CACHE_TTL_MS \<and>
   getCached plain_engine (CACHE_TTL_MS + 1)
     (setCached 0 True None ''2024-01-01'' not_payload) ''2024-01-01''
     = Some (JObj [(''status'', JStr ''not''), (''ts'', JNum 0)])"
  by (simp add: getCached_def setCached_def saveCache_def cache_set_def loadCache_def
      js_get_def not_payload_def Let_def)

lemma getCached_after_setCached:
  assumes "\<not> stored_array st"
  shows "getCached E now' (setCached now True st k r) k =
           (if now \<noteq> 0 \<and> now' - now > CACHE_TTL_MS then None
            else Some (JObj (obj_put r ''ts'' (JNum now))))"
proof -
  from assms loadCache_cases [of st] obtain kvs where kvs: "loadCache st = JObj kvs"
    by (auto simp: stored_array_def)
  let ?entry = "JObj (obj_put r ''ts'' (JNum now))"
  have st': "setCached now True st k r = Some (JObj (obj_put kvs k ?entry))"
    by (simp add: setCached_def saveCache_def cache_set_def kvs Let_def)
  have v: "js_get (loadCache (Some (JObj (obj_put kvs k ?entry)))) k = ?entry"
    by (simp add: loadCache_def js_get_obj_put_same)
  have ts: "js_get ?entry ''ts'' = JNum now"
    by (rule js_get_obj_put_same)
  show ?thesis
    unfolding st' getCached_def Let_def v ts by (simp add: ts_stale_def)
qed

text \<open>
  C5, amended.  For a date key \<open>k\<close>, a payload \<open>r\<close> and a store that accepts the write and
  does not hold an array: \<open>setCached\<close> followed by \<open>getCached\<close> within the TTL returns \<open>r\<close>
  with \<open>ts\<close> set to the time of the write; once the entry is older than the TTL, and its
  timestamp is not 0, \<open>getCached\<close> returns nothing.  (\<open>getCached\<close> has no way to write:
  it returns a value and no store.)  A date key is a text of digits and hyphens, which
  rules out \<open>__proto__\<close> and the names an object inherits.
\<close>

theorem cache_round_trip:
  assumes "date_chars k" and "\<not> stored_array st"
  shows "(now' - now \<le> CACHE_TTL_MS \<longrightarrow>
            getCached E now' (setCached now True st k r) k
              = Some (JObj (obj_put r ''ts'' (JNum now)))) \<and>
         (now \<noteq> 0 \<and> now' - now > CACHE_TTL_MS \<longrightarrow>
            getCached E now' (setCached now True st k r) k = None)"
  using getCached_after_setCached [OF assms(2)] by simp

theorem cache_round_trip_witness:
  "date_chars ''2024-01-01'' \<and> \<not> stored_array None \<and>
   getCached plain_engine 1700000000000
     (setCached 1700000000000 True None ''2024-01-01'' not_payload) ''2024-01-01''
     = Some (JObj [(''status'', JStr ''not''), (''ts'', JNum 1700000000000)]) \<and>
   getCached plain_engine (1700000000000 + CACHE_TTL_MS + 1)
     (setCached 1700000000000 True None ''2024-01-01'' not_payload) ''2024-01-01'' = None"
proof -
  have a: "date_chars ''2024-01-01''" by (simp add: date_chars_def is_digit_def)
  have b: "\<not> stored_array None" by (simp add: stored_array_def)
  have c: "obj_put not_payload ''ts'' (JNum 1700000000000)
             = [(''status'', JStr ''not''), (''ts'', JNum 1700000000000)]"
    by (simp add: not_payload_def)
  from cache_round_trip [OF a b, of 1700000000000 1700000000000 plain_engine not_payload]
       cache_round_trip [OF a b, of "1700000000000 + CACHE_TTL_MS + 1" 1700000000000
                           plain_engine not_payload]
  show ?thesis using a b c by (simp add: CACHE_TTL_MS_def)
qed

section \<open>Properties of the resolver\<close>

lemma cache_values_cache_set:
  assumes "x \<in> set (cache_values (cache_set (loadCache st) k e))"
  shows "x = e \<or> x = JNull \<or> x \<in> set (cache_values (loadCache st))"
proof -
  from loadCache_cases [of st] consider
    kvs where "loadCache st = JObj kvs" | xs where "loadCache st = JArr xs" by blast
  then show ?thesis
  proof cases
    case 1
    with assms have "x \<in> snd ` set (obj_put kvs k e)"
      by (simp add: cache_values_def cache_set_def)
    then have "x = e \<or> x \<in> snd ` set kvs" by (rule snd_set_obj_put)
    moreover have "set (cache_values (loadCache st)) = snd ` set kvs"
      using 1 by (simp add: cache_values_def)
    ultimately show ?thesis by blast
  next
    case 2
    show ?thesis
    proof (cases "array_index k")
      case None
      with 2 assms show ?thesis by (simp add: cache_values_def cache_set_def)
    next
      case (Some i)
      with 2 assms have "x \<in> set ((xs @ replicate (Suc i - length xs) JNull)[i := e])"
        by (simp add: cache_values_def cache_set_def)
      then have "x \<in> insert e (set (xs @ replicate (Suc i - length xs) JNull))"
        using set_update_subset_insert [of "xs @ replicate (Suc i - length xs) JNull" i e]
        by (rule_tac subsetD)
      then have "x = e \<or> x \<in> set xs \<or> x = JNull"
        by (auto split: if_splits)
      moreover have "set (cache_values (loadCache st)) = set xs"
        using 2 by (simp add: cache_values_def)
      ultimately show ?thesis by blast
    qed
  qed
qed

lemma loadCache_cache_set: "loadCache (Some (cache_set (loadCache st) k e)) = cache_set (loadCache st) k e"
  using loadCache_cases [of st]
  by (auto simp: loadCache_def cache_set_def split: option.splits)

lemma error_free_setCached:
  assumes "error_free st" and "map_of payload ''status'' = Some s" and "s \<noteq> JStr ''error''"
  shows "error_free (setCached now ok st k payload)"
proof (cases ok)
  case False
  with assms(1) show ?thesis by (simp add: setCached_def saveCache_def Let_def)
next
  case True
  let ?e = "JObj (obj_put payload ''ts'' (JNum now))"
  have e: "js_get ?e ''status'' \<noteq> JStr ''error''"
    using assms(2,3) by (simp add: js_get_def map_of_obj_put_other)
  have n: "js_get JNull ''status'' \<noteq> JStr ''error''" by (simp add: js_get_def)
  have "js_get x ''status'' \<noteq> JStr ''error''"
    if "x \<in> set (cache_values (cache_set (loadCache st) k ?e))" for x
    using cache_values_cache_set [OF that] e n assms(1)
    by (auto simp: error_free_def list_all_iff)
  then show ?thesis
    using True
    by (simp add: setCached_def saveCache_def Let_def error_free_def list_all_iff
        loadCache_cache_set)
qed

lemma settle_cases:
  assumes "getHolidayByAPI_settle now ok st k outcome = (r, st')"
  shows "(r = JObj not_payload \<and> st' = setCached now ok st k not_payload) \<or>
         (\<exists>name type. truthy name \<and> r = JObj (holiday_payload name type) \<and>
             st' = setCached now ok st k (holiday_payload name type)) \<or>
         (\<exists>m. r = error_result m \<and> st' = st)"
  using assms
  by (auto simp: getHolidayByAPI_settle_def
      split: fetch_outcome.splits body.splits option.splits if_splits prod.splits)

lemma status_not_payload: "js_get (JObj not_payload) ''status'' = JStr ''not''"
  by (simp add: js_get_def not_payload_def)

lemma status_holiday_payload: "js_get (JObj (holiday_payload n t)) ''status'' = JStr ''holiday''"
  by (simp add: js_get_def holiday_payload_def)

lemma status_error_result: "js_get (error_result m) ''status'' = JStr ''error''"
  by (simp add: js_get_def error_result_def)

lemma settle_store:
  assumes "getHolidayByAPI_settle now ok st k outcome = (r, st')"
  shows "(st' \<noteq> st \<longrightarrow> js_get r ''status'' = JStr ''holiday'' \<or> js_get r ''status'' = JStr ''not'')
         \<and> (js_get r ''status'' = JStr ''error'' \<longrightarrow> st' = st)
         \<and> (error_free st \<longrightarrow> error_free st')"
proof -
  from settle_cases [OF assms] consider
      "r = JObj not_payload" "st' = setCached now ok st k not_payload"
    | name type where "r = JObj (holiday_payload name type)"
        "st' = setCached now ok st k (holiday_payload name type)"
    | m where "r = error_result m" "st' = st"
    by blast
  then show ?thesis
  proof cases
    case 1
    have "error_free st \<Longrightarrow> error_free st'"
      unfolding 1 by (rule error_free_setCached [where s = "JStr ''not''"])
        (simp_all add: not_payload_def)
    with 1 show ?thesis by (auto simp: status_not_payload)
  next
    case 2
    have "error_free st \<Longrightarrow> error_free st'"
      unfolding 2 by (rule error_free_setCached [where s = "JStr ''holiday''"])
        (simp_all add: holiday_payload_def)
    with 2 show ?thesis by (auto simp: status_holiday_payload)
  next
    case 3
    then show ?thesis by simp
  qed
qed

lemma error_free_step: "error_free (store w) \<Longrightarrow> error_free (store (step E ev w))"
proof (cases ev)
  case (Render now today ds)
  assume "error_free (store w)"
  then show ?thesis
    unfolding Render by (simp add: render_start_def Let_def)
next
  case (Complete q outcome now ok)
  assume ef: "error_free (store w)"
  show ?thesis
  proof (cases "cached q")
    case (Some v)
    with ef show ?thesis
      unfolding Complete by (simp add: complete_def render_resume_def)
  next
    case None
    obtain r st' where s: "getHolidayByAPI_settle now ok (store w) (dateStr q) outcome = (r, st')"
      by (cases "getHolidayByAPI_settle now ok (store w) (dateStr q) outcome")
    from settle_store [OF s] ef have "error_free st'" by blast
    then show ?thesis
      unfolding Complete by (simp add: complete_def None s render_resume_def)
  qed
qed

lemma error_free_run: "error_free (store w) \<Longrightarrow> error_free (store (run E evs w))"
  unfolding run_def by (induction evs arbitrary: w) (simp_all add: error_free_step)

text \<open>
  C3.  A call of \<open>getHolidayByAPI\<close> changes the store only when it resolves to a result
  with status \<open>holiday\<close> or \<open>not\<close>; a result with status \<open>error\<close> leaves the store as it
  was.  A store without an entry of status \<open>error\<close> stays so under the call, and under
  every run of the script, from the first start with an empty store on.
\<close>

theorem errors_never_cached:
  "(getHolidayByAPI E now now' ok st k outcome = (r, st', u) \<longrightarrow>
      (st' \<noteq> st \<longrightarrow> js_get r ''status'' = JStr ''holiday'' \<or> js_get r ''status'' = JStr ''not'')
      \<and> (js_get r ''status'' = JStr ''error'' \<longrightarrow> st' = st)
      \<and> (error_free st \<longrightarrow> error_free st'))
   \<and> (error_free (store w) \<longrightarrow> error_free (store (run E evs w)))
   \<and> error_free (store (run E evs initial_world))"
proof -
  have "(st' \<noteq> st \<longrightarrow> js_get r ''status'' = JStr ''holiday'' \<or> js_get r ''status'' = JStr ''not'')
      \<and> (js_get r ''status'' = JStr ''error'' \<longrightarrow> st' = st)
      \<and> (error_free st \<longrightarrow> error_free st')"
    if g: "getHolidayByAPI E now now' ok st k outcome = (r, st', u)"
  proof (cases "getCached E now st k")
    case (Some v)
    with g show ?thesis by (simp add: getHolidayByAPI_def)
  next
    case None
    with g have "getHolidayByAPI_settle now' ok st k outcome = (r, st')"
      by (simp add: getHolidayByAPI_def Let_def split: prod.splits)
    then show ?thesis by (rule settle_store)
  qed
  moreover have "error_free (store initial_world)"
    by (simp add: initial_world_def error_free_def loadCache_def cache_values_def)
  ultimately show ?thesis using error_free_run by blast
qed

theorem errors_never_cached_witness:
  "getHolidayByAPI plain_engine 1700000000000 1700000000100 True None ''2024-01-01''
     (Response 500 Unparseable) = (error_result ''HTTP 500'', None, Some (API_BASE @ ''2024-01-01''))
   \<and> js_get (error_result ''HTTP 500'') ''status'' = JStr ''error''
   \<and> error_free None
   \<and> error_free (store (run plain_engine [] initial_world))"
proof -
  have a: "getHolidayByAPI plain_engine 1700000000000 1700000000100 True None ''2024-01-01''
     (Response 500 Unparseable) = (error_result ''HTTP 500'', None, Some (API_BASE @ ''2024-01-01''))"
    by code_simp
  have b: "error_free None"
    by (simp add: error_free_def loadCache_def cache_values_def)
  from errors_never_cached [of plain_engine 1700000000000 1700000000100 True None "''2024-01-01''"
      "Response 500 Unparseable" "error_result ''HTTP 500''" None "Some (API_BASE @ ''2024-01-01'')"
      initial_world "[]"] a b
  show ?thesis by (simp add: status_error_result)
qed

lemma normalize_name:
  "(case normalizeHolidayResponse json of
      Some (name, type) \<Rightarrow> if truthy name then Some (name, js_or type (JStr [])) else None
    | None \<Rightarrow> None)
   = (case payload_name json of Some name \<Rightarrow> Some (name, payload_type json) | None \<Rightarrow> None)"
proof (cases json)
  case (JObj kvs)
  then show ?thesis
    by (simp add: normalizeHolidayResponse_def payload_name_def payload_type_def
        payload_subject_def js_or_def)
next
  case (JArr xs)
  show ?thesis
  proof (cases xs)
    case Nil
    with JArr show ?thesis
      by (simp add: normalizeHolidayResponse_def payload_name_def payload_subject_def)
  next
    case (Cons first rest)
    show ?thesis
    proof (cases first)
      case (JObj kvs)
      with JArr Cons show ?thesis
        by (simp add: normalizeHolidayResponse_def payload_name_def payload_type_def
            payload_subject_def js_or_def Let_def)
    next
      case (JArr ys)
      have "js_get (JArr ys) ''name'' = JUndefined" "js_get (JArr ys) ''title'' = JUndefined"
        by (simp_all add: js_get_def array_index_def is_digit_def)
      with JArr \<open>json = JArr xs\<close> Cons show ?thesis
        by (simp add: normalizeHolidayResponse_def payload_name_def payload_subject_def
            js_or_def Let_def)
    qed (use \<open>json = JArr xs\<close> Cons in
        \<open>simp_all add: normalizeHolidayResponse_def payload_name_def payload_subject_def Let_def\<close>)
  qed
qed (simp_all add: normalizeHolidayResponse_def payload_name_def payload_subject_def)

lemma settle_classify: "fst (getHolidayByAPI_settle now ok st k outcome) = classify outcome"
proof (cases outcome)
  case Rejected
  then show ?thesis by (simp add: getHolidayByAPI_settle_def classify_def)
next
  case (Response status b)
  show ?thesis
  proof (cases b)
    case Unparseable
    with Response show ?thesis
      by (simp add: getHolidayByAPI_settle_def classify_def not_payload_def String_num_def)
  next
    case (Parsed json)
    show ?thesis
    proof (cases "status = 404 \<or> \<not> res_ok status")
      case True
      with Response Parsed show ?thesis
        by (auto simp: getHolidayByAPI_settle_def classify_def not_payload_def String_num_def
            res_ok_def)
    next
      case False
      with Response Parsed normalize_name [of json] show ?thesis
        by (auto simp: getHolidayByAPI_settle_def classify_def holiday_payload_def
            split: option.splits prod.splits if_splits)
    qed
  qed
qed

text \<open>
  C2, as worded, fails for a success response whose body \<open>res.json()\<close> cannot
  parse: no name comes out of it, and the result is \<open>network\<close>, not
  \<open>unexpected response\<close>, because the rejection of \<open>res.json()\<close> lands in the same
  \<open>catch\<close> as a failed fetch.
\<close>

theorem unparseable_body_counterexample:
  "res_ok 200 \<and>
   getCached plain_engine 0 None ''2024-01-01'' = None \<and>
   fst (getHolidayByAPI plain_engine 0 0 True None ''2024-01-01'' (Response 200 Unparseable))
     = error_result ''network'' \<and>
   error_result ''network'' \<noteq> error_result ''unexpected response''"
  by (simp add: res_ok_def getHolidayByAPI_def getHolidayByAPI_settle_def getCached_def
      loadCache_def js_get_def Let_def error_result_def)

text \<open>
  C2, amended.  On a cache miss for a date key (a text of digits and hyphens, the only
  keys on which the lookup in the cache and the write to it are modelled exactly)
  \<open>getHolidayByAPI\<close> resolves to \<open>classify outcome\<close>: status 404 gives \<open>not\<close>; a success
  status with a body that parses and has a name gives \<open>holiday\<close> with that name and type;
  a success status with a body that parses and has no name gives the error
  \<open>unexpected response\<close>; any other status gives the error \<open>HTTP\<close> followed by the code;
  and a rejected fetch (timeout, transport fault) or a success status with a body that
  does not parse gives the error \<open>network\<close>.  The URL of the key is requested.
\<close>

theorem miss_classification:
  assumes "date_chars k" and "getCached E now st k = None"
  shows "fst (getHolidayByAPI E now now' ok st k outcome) = classify outcome \<and>
         snd (snd (getHolidayByAPI E now now' ok st k outcome))
           = Some (API_BASE @ encodeURIComponent k)"
  using assms(2) settle_classify [of now' ok st k outcome]
  by (auto simp: getHolidayByAPI_def Let_def split: prod.splits)

theorem miss_classification_witness:
  "date_chars ''2024-01-01'' \<and>
   getCached plain_engine 0 None ''2024-01-01'' = None \<and>
   fst (getHolidayByAPI plain_engine 0 5 True None ''2024-01-01''
         (Response 200 (Parsed (JArr [JObj [(''title'', JStr ''New Year'')]]))))
     = JObj [(''status'', JStr ''holiday''), (''name'', JStr ''New Year''), (''type'', JStr [])]"
proof -
  have d: "date_chars ''2024-01-01''"
    by (simp add: date_chars_def is_digit_def)
  have a: "getCached plain_engine 0 None ''2024-01-01'' = None"
    by (simp add: getCached_def loadCache_def js_get_def Let_def)
  have "classify (Response 200 (Parsed (JArr [JObj [(''title'', JStr ''New Year'')]])))
     = JObj [(''status'', JStr ''holiday''), (''name'', JStr ''New Year''), (''type'', JStr [])]"
    by (simp add: classify_def res_ok_def payload_name_def payload_type_def payload_subject_def
        js_get_def)
  with miss_classification [OF d a, of 5 True
      "Response 200 (Parsed (JArr [JObj [(''title'', JStr ''New Year'')]]))"] d a
  show ?thesis by simp
qed

section \<open>Properties of render\<close>

lemma settle_result_indep:
  "fst (getHolidayByAPI_settle now ok st k outcome)
     = fst (getHolidayByAPI_settle now' ok' st' k' outcome)"
  by (simp add: settle_classify)

lemma js_incr_ge: "n \<le> js_incr n"
  by (simp add: js_incr_def)

lemma js_incr_gt: "n < 2 ^ 53 \<Longrightarrow> n < js_incr n"
  by (simp add: js_incr_def)

lemma render_start_empty: "fst (render_start E now today [] w) = None"
  by (simp add: render_start_def Let_def)

lemma render_start_Some:
  assumes "render_start E now today ds w = (Some q, w')"
  shows "ds \<noteq> []"
    and "reqId q = js_incr (lastReqId w)"
    and "lastReqId w' = reqId q"
    and "isWeekend q \<longleftrightarrow>
           getUTCDay (ymdToUTCDate E ds) = Fin 0 \<or> getUTCDay (ymdToUTCDate E ds) = Fin 6"
    and "holidayText (screen w') = Judging"
    and "businessDayText (screen w') = Judging"
proof -
  show ne: "ds \<noteq> []"
    using assms render_start_empty [of E now today w] by (cases ds) auto
  from assms ne show "reqId q = js_incr (lastReqId w)"
    by (auto simp: render_start_def Let_def)
  from assms ne show "lastReqId w' = reqId q"
    by (auto simp: render_start_def Let_def)
  from assms ne show "isWeekend q \<longleftrightarrow>
           getUTCDay (ymdToUTCDate E ds) = Fin 0 \<or> getUTCDay (ymdToUTCDate E ds) = Fin 6"
    by (auto simp: render_start_def Let_def)
  from assms ne show "holidayText (screen w') = Judging"
    by (auto simp: render_start_def Let_def)
  from assms ne show "businessDayText (screen w') = Judging"
    by (auto simp: render_start_def Let_def)
qed

lemma render_start_nonempty:
  "ds \<noteq> [] \<Longrightarrow> \<exists>q. fst (render_start E now today ds w) = Some q"
  by (simp add: render_start_def Let_def)

lemma render_start_lastReqId_ge: "lastReqId w \<le> lastReqId (snd (render_start E now today ds w))"
  by (simp add: render_start_def Let_def js_incr_ge)

lemma complete_lastReqId: "lastReqId (complete q outcome now ok w) = lastReqId w"
  by (simp add: complete_def render_resume_def split: option.splits prod.splits)

lemma step_lastReqId_ge: "lastReqId w \<le> lastReqId (step E ev w)"
  by (cases ev) (simp_all add: render_start_lastReqId_ge complete_lastReqId)

lemma run_lastReqId_ge: "lastReqId w \<le> lastReqId (run E evs w)"
  unfolding run_def
proof (induction evs arbitrary: w)
  case Nil
  show ?case by simp
next
  case (Cons ev evs)
  have "lastReqId w \<le> lastReqId (step E ev w)" by (rule step_lastReqId_ge)
  also have "\<dots> \<le> lastReqId (foldl (\<lambda>w' ev. step E ev w') (step E ev w) evs)"
    by (rule Cons.IH)
  finally show ?case by simp
qed

lemma render_resume_stale: "reqId q \<noteq> lastReqId w \<Longrightarrow> render_resume q r w = w"
  by (simp add: render_resume_def)

lemma complete_stale:
  assumes "reqId q \<noteq> lastReqId w"
  shows "screen (complete q outcome now ok w) = screen w"
    and "requests (complete q outcome now ok w) = requests w"
  using assms by (simp_all add: complete_def render_resume_def split: option.splits prod.splits)

lemma complete_current:
  assumes "reqId q = lastReqId w"
  shows "screen (complete q outcome now ok w)
           = show_result (isWeekend q) (resolved q outcome) (screen w)"
proof (cases "cached q")
  case (Some v)
  with assms show ?thesis by (simp add: complete_def render_resume_def resolved_def)
next
  case None
  obtain r st' where s: "getHolidayByAPI_settle now ok (store w) (dateStr q) outcome = (r, st')"
    by (cases "getHolidayByAPI_settle now ok (store w) (dateStr q) outcome")
  have "r = fst (getHolidayByAPI_settle 0 False None (dateStr q) outcome)"
    using settle_result_indep [of now ok "store w" "dateStr q" outcome 0 False None "dateStr q"] s
    by simp
  with assms None s show ?thesis
    by (simp add: complete_def render_resume_def resolved_def)
qed

lemma run_other_completions:
  assumes "list_all (other_completion (lastReqId w)) evs"
  shows "screen (run E evs w) = screen w \<and> lastReqId (run E evs w) = lastReqId w"
  using assms unfolding run_def
proof (induction evs arbitrary: w)
  case Nil
  show ?case by simp
next
  case (Cons ev evs)
  from Cons.prems obtain q outcome now ok
    where ev: "ev = Complete q outcome now ok" and ne: "reqId q \<noteq> lastReqId w"
    by (cases ev) auto
  have s: "screen (step E ev w) = screen w" "lastReqId (step E ev w) = lastReqId w"
    using ne by (simp_all add: ev complete_stale complete_lastReqId)
  from Cons.prems have "list_all (other_completion (lastReqId (step E ev w))) evs"
    by (simp add: s)
  from Cons.IH [OF this] s show ?case by simp
qed

lemma run_append: "run E (xs @ ys) w = run E ys (run E xs w)"
  by (simp add: run_def)

lemma run_Cons: "run E (ev # evs) w = run E evs (step E ev w)"
  by (simp add: run_def)

lemma show_result_business:
  "businessDayText (show_result weekend r p)
     = (if \<not> weekend \<and> js_get r ''status'' \<noteq> JStr ''holiday'' then BusinessDay else ClosedDay)"
  by (simp add: show_result_def Let_def setHolidayName_def)

text \<open>
  C9.  When the lookup of a rendered date ends in a result with status \<open>error\<close> and the
  render is still the latest one, the business-day field is decided as for a result with
  status \<open>not\<close>: a business day if and only if the date is not a Saturday or Sunday.
  The field does not stay at its pending text.
\<close>

theorem error_counts_as_not_holiday:
  assumes "render_start E now today ds w = (Some q, w1)"
    and "lastReqId w' = reqId q"
    and "js_get r ''status'' = JStr ''error''"
  shows "businessDayText (screen (render_resume q r w'))
           = (if getUTCDay (ymdToUTCDate E ds) = Fin 0 \<or> getUTCDay (ymdToUTCDate E ds) = Fin 6
              then ClosedDay else BusinessDay)
         \<and> businessDayText (screen (render_resume q r w'))
           = businessDayText (screen (render_resume q (JObj not_payload) w'))
         \<and> businessDayText (screen (render_resume q r w')) \<noteq> Judging"
  using assms(2,3) render_start_Some(4) [OF assms(1)]
  by (simp add: render_resume_def show_result_business status_not_payload)

theorem error_counts_as_not_holiday_witness:
  "businessDayText (screen (render_resume
      (the (fst (render_start plain_engine 0 ''2024-01-10'' ''2024-01-06'' initial_world)))
      (error_result ''network'')
      (snd (render_start plain_engine 0 ''2024-01-10'' ''2024-01-06'' initial_world))))
    = ClosedDay"
proof -
  let ?rs = "render_start plain_engine 0 ''2024-01-10'' ''2024-01-06'' initial_world"
  obtain q where q: "fst ?rs = Some q"
    using render_start_nonempty [of "''2024-01-06''" plain_engine 0 "''2024-01-10''" initial_world]
    by auto
  have eq: "?rs = (Some q, snd ?rs)" using q by (simp add: prod_eq_iff)
  have sat: "getUTCDay (ymdToUTCDate plain_engine ''2024-01-06'') = Fin 6" by code_simp
  from error_counts_as_not_holiday [OF eq render_start_Some(3) [OF eq] status_error_result,
      of "''network''"] sat q
  show ?thesis by simp
qed

text \<open>
  C1.  Lookup A is started by a \<open>render\<close>; after any events lookup B is started by a later
  \<open>render\<close>, while the counter is below \<open>2^53\<close> (the range in which \<open>++\<close> is exact).
  Then B's request id is strictly greater than A's.  From then on, whatever else happens
  (\<open>evs2\<close>), the continuation of A's \<open>render\<close> leaves the whole state as it is, and A's
  completion changes neither the page nor the counter nor the requests (only the resolver's
  cache write, which comes before the check, can remain).  And as long as no newer
  \<open>render\<close> starts a lookup, the page after B's completion shows B's result on the page
  as B's \<open>render\<close> left it, however the completions of the other lookups (A among them)
  are ordered around it.  (The earlier revision of the script guards its page with the
  same three steps: \<open>reqId = ++lastReqId\<close>, the \<open>await\<close>, and the return when
  \<open>reqId !== lastReqId\<close>.)
\<close>

theorem superseded_lookup_is_dropped:
  assumes "render_start E nowA todayA dA w0 = (Some qA, w1)"
    and "lastReqId (run E evs1 w1) < 2 ^ 53"
    and "render_start E nowB todayB dB (run E evs1 w1) = (Some qB, w3)"
  shows "reqId qA < reqId qB
     \<and> render_resume qA rA (run E evs2 w3) = run E evs2 w3
     \<and> screen (complete qA ocA tA okA (run E evs2 w3)) = screen (run E evs2 w3)
     \<and> lastReqId (complete qA ocA tA okA (run E evs2 w3)) = lastReqId (run E evs2 w3)
     \<and> requests (complete qA ocA tA okA (run E evs2 w3)) = requests (run E evs2 w3)
     \<and> (list_all (other_completion (reqId qB)) before \<and>
          list_all (other_completion (reqId qB)) after \<longrightarrow>
          other_completion (reqId qB) (Complete qA ocA tA okA) \<and>
          screen (run E (before @ Complete qB ocB tB okB # after) w3)
            = show_result (isWeekend qB) (resolved qB ocB) (screen w3))"
proof -
  have a1: "lastReqId w1 = reqId qA" by (rule render_start_Some(3) [OF assms(1)])
  have b1: "reqId qB = js_incr (lastReqId (run E evs1 w1))"
    by (rule render_start_Some(2) [OF assms(3)])
  have b3: "lastReqId w3 = reqId qB" by (rule render_start_Some(3) [OF assms(3)])
  have "reqId qA \<le> lastReqId (run E evs1 w1)"
    using run_lastReqId_ge [of w1 E evs1] a1 by simp
  also have "\<dots> < reqId qB" unfolding b1 by (rule js_incr_gt [OF assms(2)])
  finally have lt: "reqId qA < reqId qB" .
  have "reqId qB \<le> lastReqId (run E evs2 w3)"
    using run_lastReqId_ge [of w3 E evs2] b3 by simp
  with lt have stale: "reqId qA \<noteq> lastReqId (run E evs2 w3)" by simp
  have order: "screen (run E (before @ Complete qB ocB tB okB # after) w3)
            = show_result (isWeekend qB) (resolved qB ocB) (screen w3)"
    if bef: "list_all (other_completion (reqId qB)) before"
      and aft: "list_all (other_completion (reqId qB)) after"
  proof -
    let ?w = "run E before w3"
    from bef have w: "screen ?w = screen w3" "lastReqId ?w = lastReqId w3"
      using run_other_completions [of w3 before E] b3 by simp_all
    let ?w' = "complete qB ocB tB okB ?w"
    have w': "screen ?w' = show_result (isWeekend qB) (resolved qB ocB) (screen w3)"
      using complete_current [of qB ?w ocB tB okB] w b3 by simp
    have l': "lastReqId ?w' = reqId qB" by (simp add: complete_lastReqId w b3)
    from aft have "screen (run E after ?w') = screen ?w'"
      using run_other_completions [of ?w' after E] l' by simp
    with w' show ?thesis by (simp add: run_append run_Cons)
  qed
  from lt have "other_completion (reqId qB) (Complete qA ocA tA okA)" by simp
  with lt stale order show ?thesis
    by (simp add: render_resume_stale complete_stale complete_lastReqId)
qed

theorem superseded_lookup_is_dropped_witness:
  "(let (qA, w1) = render_start plain_engine 0 ''2024-01-10'' ''2024-01-01'' initial_world;
        (qB, w3) = render_start plain_engine 5 ''2024-01-10'' ''2024-01-06'' w1;
        a = Complete (the qA) (Response 200 (Parsed (JObj [(''name'', JStr ''New Year'')]))) 9 True;
        b = Complete (the qB) (Response 404 Unparseable) 8 True
    in reqId (the qA) = 1 \<and> reqId (the qB) = 2
       \<and> holidayText (screen (run plain_engine [a, b] w3)) = HolidayNo
       \<and> holidayText (screen (run plain_engine [b, a] w3)) = HolidayNo
       \<and> screen (run plain_engine [a, b] w3) = screen (run plain_engine [b, a] w3))"
proof -
  let ?rA = "render_start plain_engine 0 ''2024-01-10'' ''2024-01-01'' initial_world"
  let ?rB = "render_start plain_engine 5 ''2024-01-10'' ''2024-01-06'' (snd ?rA)"
  obtain qA where qA: "fst ?rA = Some qA"
    using render_start_nonempty [of "''2024-01-01''" plain_engine 0 "''2024-01-10''" initial_world]
    by auto
  obtain qB where qB: "fst ?rB = Some qB"
    using render_start_nonempty [of "''2024-01-06''" plain_engine 5 "''2024-01-10''" "snd ?rA"]
    by auto
  have eA: "?rA = (Some qA, snd ?rA)" using qA by (simp add: prod_eq_iff)
  have eB: "render_start plain_engine 5 ''2024-01-10'' ''2024-01-06''
              (run plain_engine [] (snd ?rA)) = (Some qB, snd ?rB)"
    using qB by (simp add: prod_eq_iff run_def)
  have idA: "reqId qA = 1"
    using render_start_Some(2) [OF eA] by (simp add: initial_world_def js_incr_def)
  have lA: "lastReqId (run plain_engine [] (snd ?rA)) = 1"
    using render_start_Some(3) [OF eA] idA by (simp add: run_def)
  have idB: "reqId qB = 2"
    using render_start_Some(2) [OF eB] lA by (simp add: js_incr_def)
  have small: "lastReqId (run plain_engine [] (snd ?rA)) < 2 ^ 53" by (simp add: lA)
  have missB: "cached qB = None"
    using eB by (auto simp: render_start_def Let_def run_def getCached_def loadCache_def
        js_get_def initial_world_def)
  have resB: "resolved qB (Response 404 Unparseable) = JObj not_payload"
    by (simp add: resolved_def missB getHolidayByAPI_settle_def)
  let ?a = "Complete qA (Response 200 (Parsed (JObj [(''name'', JStr ''New Year'')]))) 9 True"
  let ?b = "Complete qB (Response 404 Unparseable) 8 True"
  have shown: "holidayText (show_result (isWeekend qB) (JObj not_payload) (screen (snd ?rB)))
                 = HolidayNo"
    by (simp add: show_result_def Let_def setHolidayName_def status_not_payload)
  note inst = superseded_lookup_is_dropped [OF eA small eB, where ocB = "Response 404 Unparseable"
      and tB = 8 and okB = True
      and ocA = "Response 200 (Parsed (JObj [(''name'', JStr ''New Year'')]))"
      and tA = 9 and okA = True and rA = JNull and ?evs2.0 = "[]"]
  have ab: "screen (run plain_engine [?a, ?b] (snd ?rB))
              = show_result (isWeekend qB) (JObj not_payload) (screen (snd ?rB))"
    using inst [where before = "[?a]" and after = "[]"] resB idA idB by simp
  have ba: "screen (run plain_engine [?b, ?a] (snd ?rB))
              = show_result (isWeekend qB) (JObj not_payload) (screen (snd ?rB))"
    using inst [where before = "[]" and after = "[?a]"] resB idA idB by simp
  show ?thesis
    using idA idB ab ba shown qA qB by (simp add: case_prod_beta)
qed

section \<open>Week positions\<close>

lemma is_monday_iff: "is_monday (day - i) \<longleftrightarrow> (day + 3) mod 7 = i mod 7"
proof -
  have "is_monday (day - i) \<longleftrightarrow> (day - i + 3) mod 7 = 0"
    unfolding is_monday_def by presburger
  also have "\<dots> \<longleftrightarrow> 7 dvd (day + 3 - i)"
    by (simp add: mod_eq_0_iff_dvd algebra_simps)
  also have "\<dots> \<longleftrightarrow> (day + 3) mod 7 = i mod 7"
    by (simp add: mod_eq_dvd_iff)
  finally show ?thesis .
qed

lemma mondayAnchor_eq: "mondayAnchor day = day - (day + 3) mod 7"
proof -
  define r where "r = (day + 3) mod 7"
  have r: "0 \<le> r" "r < 7" by (simp_all add: r_def)
  have m: "is_monday (day - i) \<longleftrightarrow> r = i" if "0 \<le> i" "i < 7" for i
    using is_monday_iff [of day i] that by (simp add: r_def)
  have m0: "is_monday day \<longleftrightarrow> r = 0" using m [of 0] by simp
  from r consider "r = 0" | "r = 1" | "r = 2" | "r = 3" | "r = 4" | "r = 5" | "r = 6"
    by linarith
  then have "mondayAnchor day = day - r"
    by cases (simp_all add: mondayAnchor_def m m0)
  then show ?thesis by (simp add: r_def)
qed

lemma delta_eq: "(((day::int) + 4) mod 7 + 6) mod 7 = (day + 3) mod 7"
proof -
  have "((day + 4) mod 7 + 6) mod 7 = (day + 4 + 6) mod 7" by (simp only: mod_add_left_eq)
  also have "\<dots> = (day + 3 + 7) mod 7" by simp
  also have "\<dots> = (day + 3) mod 7" by (simp only: mod_add_self2)
  finally show ?thesis .
qed

lemma mondayAnchor_is_monday:
  "is_monday (mondayAnchor day) \<and> mondayAnchor day \<le> day \<and> day < mondayAnchor day + 7"
proof -
  have "is_monday (day - (day + 3) mod 7)"
    by (simp add: is_monday_iff)
  moreover have "0 \<le> (day + 3) mod 7" "(day + 3) mod 7 < 7" by simp_all
  ultimately show ?thesis by (simp add: mondayAnchor_eq)
qed

lemma Day_civil: "Day (day * MS_PER_DAY) = day"
  by (simp add: Day_def MS_PER_DAY_def)

lemma mondayStartUTC_civil:
  assumes "- 99999994 \<le> day" and "day \<le> 100000000"
  shows "mondayStartUTC (civil day) = civil (mondayAnchor day)"
proof -
  define x where "x = day - (day + 3) mod 7"
  have r: "0 \<le> (day + 3) mod 7" "(day + 3) mod 7 < 7" by simp_all
  have x: "- 100000000 \<le> x" "x \<le> 100000000" using assms r by (simp_all add: x_def)
  have t: "day * MS_PER_DAY - (day + 3) mod 7 * MS_PER_DAY = x * MS_PER_DAY"
    by (simp add: x_def algebra_simps)
  have clip: "TimeClip (x * MS_PER_DAY) = Fin (x * MS_PER_DAY)"
    using x by (simp add: TimeClip_def MS_PER_DAY_def abs_le_iff)
  have "mondayStartUTC (civil day) = TimeClip (x * MS_PER_DAY)"
    by (simp add: mondayStartUTC_def civil_def WeekDay_def Day_civil delta_eq t Let_def)
  also note clip
  finally show ?thesis
    by (simp add: civil_def mondayAnchor_eq x_def)
qed

lemma week_number_civil: "week_number (civil a) (civil b) = Fin (daysBetween a b div 7 + 1)"
proof -
  have "b * MS_PER_DAY - a * MS_PER_DAY = (b - a) * MS_PER_DAY" by (simp add: algebra_simps)
  then show ?thesis
    by (simp add: week_number_def civil_def daysBetween_def MS_PER_DAY_def)
qed

text \<open>
  C8.  For civil dates (dates at UTC midnight, given by their day numbers) whose week
  starts inside the range of \<open>Date\<close>, \<open>weekIndexAndRemaining\<close> returns the index, the
  total and the remaining weeks of the specification's \<open>weekPosition\<close>; the Monday anchor
  it uses is the Monday on or before the date.  For the calendar year of 2024-01-01,
  evaluated at 2024-01-01, the index is 1.
\<close>

theorem weekIndexAndRemaining_is_weekPosition:
  assumes "- 99999994 \<le> date" "date \<le> 100000000"
    and "- 99999994 \<le> start" "start \<le> 100000000"
    and "- 99999994 \<le> fin" "fin \<le> 100000000"
  shows "weekIndexAndRemaining (civil date) (civil start) (civil fin)
           = (case weekPosition date start fin of
                (index, totalWeeks, weeksRemaining) \<Rightarrow>
                  \<lparr>wk_idx = Fin index, wk_total = Fin totalWeeks,
                   wk_remain = Fin weeksRemaining\<rparr>)
         \<and> is_monday (mondayAnchor date) \<and> mondayAnchor date \<le> date
         \<and> date < mondayAnchor date + 7
         \<and> wk_idx (weekIndexAndRemaining (Date_UTC (Fin 2024) (Fin 0) (Fin 1))
              (yp_start (getYearPeriodFor (Date_UTC (Fin 2024) (Fin 0) (Fin 1))))
              (yp_end (getYearPeriodFor (Date_UTC (Fin 2024) (Fin 0) (Fin 1))))) = Fin 1"
proof -
  have "weekIndexAndRemaining (civil date) (civil start) (civil fin)
           = (case weekPosition date start fin of
                (index, totalWeeks, weeksRemaining) \<Rightarrow>
                  \<lparr>wk_idx = Fin index, wk_total = Fin totalWeeks,
                   wk_remain = Fin weeksRemaining\<rparr>)"
    using assms
    by (simp add: weekIndexAndRemaining_def weekPosition_def mondayStartUTC_civil
        week_number_civil Let_def)
  moreover have "wk_idx (weekIndexAndRemaining (Date_UTC (Fin 2024) (Fin 0) (Fin 1))
              (yp_start (getYearPeriodFor (Date_UTC (Fin 2024) (Fin 0) (Fin 1))))
              (yp_end (getYearPeriodFor (Date_UTC (Fin 2024) (Fin 0) (Fin 1))))) = Fin 1"
    by code_simp
  ultimately show ?thesis using mondayAnchor_is_monday [of date] by simp
qed

theorem weekIndexAndRemaining_is_weekPosition_witness:
  "weekIndexAndRemaining (civil 19728) (civil 19723) (civil 20088)
     = \<lparr>wk_idx = Fin 1, wk_total = Fin 53, wk_remain = Fin 52\<rparr>
   \<and> civil 19728 = Date_UTC (Fin 2024) (Fin 0) (Fin 6)
   \<and> civil 19723 = Date_UTC (Fin 2024) (Fin 0) (Fin 1)
   \<and> civil 20088 = Date_UTC (Fin 2024) (Fin 11) (Fin 31)"
proof -
  have "weekPosition 19728 19723 20088 = (1, 53, 52)" by code_simp
  with weekIndexAndRemaining_is_weekPosition [of 19728 19723 20088]
  have "weekIndexAndRemaining (civil 19728) (civil 19723) (civil 20088)
     = \<lparr>wk_idx = Fin 1, wk_total = Fin 53, wk_remain = Fin 52\<rparr>" by simp
  moreover have "civil 19728 = Date_UTC (Fin 2024) (Fin 0) (Fin 6)" by code_simp
  moreover have "civil 19723 = Date_UTC (Fin 2024) (Fin 0) (Fin 1)" by code_simp
  moreover have "civil 20088 = Date_UTC (Fin 2024) (Fin 11) (Fin 31)" by code_simp
  ultimately show ?thesis by simp
qed

section \<open>Parsing and formatting date keys\<close>

lemma split_on_no_sep: "c \<notin> set s \<Longrightarrow> split_on c s = [s]"
  by (induction s) auto

lemma split_on_sep: "c \<notin> set a \<Longrightarrow> split_on c (a @ c # rest) = a # split_on c rest"
  by (induction a) (auto split: list.splits)

lemma hyphen_not_digit: "\<not> is_digit CHR ''-''"
  by (simp add: is_digit_def)

lemma digits_no_hyphen: "list_all is_digit s \<Longrightarrow> CHR ''-'' \<notin> set s"
  using hyphen_not_digit by (auto simp: list_all_iff)

lemma digits_date_chars: "list_all is_digit s \<Longrightarrow> date_chars s"
  by (auto simp: date_chars_def list_all_iff)

lemma date_chars_append: "date_chars (a @ b) \<longleftrightarrow> date_chars a \<and> date_chars b"
  by (simp add: date_chars_def)

lemma date_chars_hyphen: "date_chars (CHR ''-'' # s) \<longleftrightarrow> date_chars s"
  by (simp add: date_chars_def)

lemma ymdToUTCDate_three:
  assumes "list_all is_digit ys" "list_all is_digit ms" "list_all is_digit ds"
  shows "ymdToUTCDate E (ys @ ''-'' @ ms @ ''-'' @ ds)
           = Date_UTC (Fin (dec_value ys)) (Fin (dec_value ms - 1)) (Fin (dec_value ds))"
proof -
  have s: "split_on CHR ''-'' (ys @ ''-'' @ ms @ ''-'' @ ds) = [ys, ms, ds]"
    using assms by (simp add: split_on_sep split_on_no_sep digits_no_hyphen)
  have d: "date_chars (ys @ ''-'' @ ms @ ''-'' @ ds)"
    using assms by (simp add: date_chars_append date_chars_hyphen digits_date_chars)
  show ?thesis
    unfolding ymdToUTCDate_def using d s by (simp add: Number_piece_def js_plus_def)
qed

lemma ymdToUTCDate_short:
  assumes "list_all is_digit ys" "list_all is_digit ms"
  shows "ymdToUTCDate E ys = NaN" and "ymdToUTCDate E (ys @ ''-'' @ ms) = NaN"
proof -
  have s1: "split_on CHR ''-'' ys = [ys]"
    using assms by (simp add: split_on_no_sep digits_no_hyphen)
  have s2: "split_on CHR ''-'' (ys @ ''-'' @ ms) = [ys, ms]"
    using assms by (simp add: split_on_sep split_on_no_sep digits_no_hyphen)
  have d1: "date_chars ys" using assms by (simp add: digits_date_chars)
  have d2: "date_chars (ys @ ''-'' @ ms)"
    using assms by (simp add: date_chars_append date_chars_hyphen digits_date_chars)
  show "ymdToUTCDate E ys = NaN"
    unfolding ymdToUTCDate_def using d1 s1 by (simp add: Date_UTC_def Number_piece_def)
  show "ymdToUTCDate E (ys @ ''-'' @ ms) = NaN"
    unfolding ymdToUTCDate_def using d2 s2
    by (simp add: Date_UTC_def Number_piece_def js_plus_def)
qed

lemma split_on_digits:
  "date_chars s \<Longrightarrow> list_all (list_all is_digit) (split_on CHR ''-'' s)"
proof (induction s)
  case Nil
  show ?case by simp
next
  case (Cons x xs)
  from Cons.prems have x: "is_digit x \<or> x = CHR ''-''" and xs: "date_chars xs"
    by (simp_all add: date_chars_def)
  from Cons.IH [OF xs] have ih: "list_all (list_all is_digit) (split_on CHR ''-'' xs)" .
  show ?case
  proof (cases "x = CHR ''-''")
    case True
    with ih show ?thesis by simp
  next
    case False
    with x have "is_digit x" by simp
    with ih False show ?thesis by (cases "split_on CHR ''-'' xs") simp_all
  qed
qed

lemma ymdToUTCDate_date_chars:
  assumes "date_chars s"
  shows "ymdToUTCDate E s =
           (case split_on CHR ''-'' s of
              ys # ms # ds # rest \<Rightarrow>
                Date_UTC (Fin (dec_value ys)) (Fin (dec_value ms - 1)) (Fin (dec_value ds))
            | _ \<Rightarrow> NaN)"
  unfolding ymdToUTCDate_def using assms
  by (simp add: Number_piece_def js_plus_def Date_UTC_def split: list.splits)

lemma render_start_empty_world:
  "fst (render_start E now today [] w) = None"
  "lastReqId (snd (render_start E now today [] w)) = lastReqId w"
  "requests (snd (render_start E now today [] w)) = requests w"
  by (simp_all add: render_start_def Let_def)

lemma MakeDay_carry: "MakeDay y (m + 12) d = MakeDay (y + 1) m d"
proof -
  have e: "y + (m + 12) div 12 = y + 1 + m div 12" "(m + 12) mod 12 = m mod 12" by simp_all
  show ?thesis unfolding MakeDay_def Let_def by (simp only: e)
qed

lemma render_start_lookup:
  assumes "render_start E now today ds w = (Some q, w')"
  shows "dateStr q = ds"
    and "cached q = getCached E now (store w) ds"
    and "requests w' = (if getCached E now (store w) ds = None
                        then requests w @ [API_BASE @ encodeURIComponent ds] else requests w)"
proof -
  have ne: "ds \<noteq> []" by (rule render_start_Some(1) [OF assms])
  from assms ne show "dateStr q = ds"
    by (auto simp: render_start_def Let_def)
  from assms ne show "cached q = getCached E now (store w) ds"
    by (auto simp: render_start_def Let_def)
  from assms ne show "requests w' = (if getCached E now (store w) ds = None
                        then requests w @ [API_BASE @ encodeURIComponent ds] else requests w)"
    by (auto simp: render_start_def Let_def split: option.splits)
qed

lemma render_start_proceeds:
  assumes "ds \<noteq> []"
  shows "\<exists>q. fst (render_start E now today ds w) = Some q
            \<and> reqId q = js_incr (lastReqId w) \<and> dateStr q = ds
            \<and> cached q = getCached E now (store w) ds
            \<and> lastReqId (snd (render_start E now today ds w)) = js_incr (lastReqId w)
            \<and> holidayText (screen (snd (render_start E now today ds w))) = Judging
            \<and> requests (snd (render_start E now today ds w))
                = (if getCached E now (store w) ds = None
                   then requests w @ [API_BASE @ encodeURIComponent ds] else requests w)"
proof -
  let ?rs = "render_start E now today ds w"
  from render_start_nonempty [OF assms] obtain q where q: "fst ?rs = Some q" by blast
  have eq: "?rs = (Some q, snd ?rs)" using q by (simp add: prod_eq_iff)
  show ?thesis
    using q render_start_Some(2,3,5) [OF eq] render_start_lookup [OF eq] by simp
qed

text \<open>
  C6, as worded, fails: the script has no check of the text and no error.
  Month 13 of 2024 is read as January 2025, and \<open>render\<close> goes on to start the lookup of
  the key as typed.
\<close>

theorem month_13_counterexample:
  "ymdToUTCDate plain_engine ''2024-13-01'' = ymdToUTCDate plain_engine ''2025-01-01''
   \<and> utcDateToYMD (ymdToUTCDate plain_engine ''2024-13-01'') = ''2025-01-01''
   \<and> requests (snd (render_start plain_engine 0 ''2024-01-01'' ''2024-13-01'' initial_world))
       = [''https://api.national-holidays.jp/2024-13-01'']"
proof -
  have "ymdToUTCDate plain_engine ''2024-13-01'' = ymdToUTCDate plain_engine ''2025-01-01''"
    by code_simp
  moreover have "utcDateToYMD (ymdToUTCDate plain_engine ''2024-13-01'') = ''2025-01-01''"
    by code_simp
  moreover have
    "requests (snd (render_start plain_engine 0 ''2024-01-01'' ''2024-13-01'' initial_world))
       = [''https://api.national-holidays.jp/2024-13-01'']"
    by (simp add: render_start_def Let_def initial_world_def getCached_def loadCache_def
        js_get_def API_BASE_def encodeURIComponent_def unreserved_def)
  ultimately show ?thesis by simp
qed

text \<open>
  C6, amended.  For every text of digits and hyphens \<open>ymdToUTCDate\<close> checks nothing and
  rejects nothing: it splits the text at the hyphens, every piece is a run of digits, and
  the result is \<open>Date.UTC\<close> of the numbers of the first three pieces (month minus one) when
  there are at least three, an Invalid Date when there are fewer.  The day computation of
  \<open>Date.UTC\<close> rejects no month: \<open>MakeDay\<close> reads the month of index \<open>m + 12\<close> of the year
  \<open>y\<close> as the month of index \<open>m\<close> of the year \<open>y + 1\<close>.  And \<open>render\<close> stops early on the
  empty text only: on every other text of digits and hyphens it goes on, takes the next
  request id, shows the pending state and starts the lookup of the text as typed (the URL
  is requested unless the cache answers).
\<close>

theorem parse_accepts_and_render_proceeds:
  assumes "date_chars text"
  shows "list_all (list_all is_digit) (split_on CHR ''-'' text)
         \<and> ymdToUTCDate E text =
             (case split_on CHR ''-'' text of
                ys # ms # ds # rest \<Rightarrow>
                  Date_UTC (Fin (dec_value ys)) (Fin (dec_value ms - 1)) (Fin (dec_value ds))
              | _ \<Rightarrow> NaN)
         \<and> MakeDay y (m + 12) d = MakeDay (y + 1) m d
         \<and> (text = [] \<longrightarrow>
              fst (render_start E now today text w) = None
              \<and> lastReqId (snd (render_start E now today text w)) = lastReqId w
              \<and> requests (snd (render_start E now today text w)) = requests w)
         \<and> (text \<noteq> [] \<longrightarrow>
              (\<exists>q. fst (render_start E now today text w) = Some q
                \<and> reqId q = js_incr (lastReqId w) \<and> dateStr q = text
                \<and> cached q = getCached E now (store w) text
                \<and> lastReqId (snd (render_start E now today text w)) = js_incr (lastReqId w)
                \<and> holidayText (screen (snd (render_start E now today text w))) = Judging
                \<and> requests (snd (render_start E now today text w))
                    = (if getCached E now (store w) text = None
                       then requests w @ [API_BASE @ encodeURIComponent text]
                       else requests w)))"
  using split_on_digits [OF assms] ymdToUTCDate_date_chars [OF assms] MakeDay_carry
    render_start_empty_world render_start_proceeds
  by simp

theorem parse_accepts_and_render_proceeds_witness:
  "date_chars ''2024-13-01''
   \<and> ymdToUTCDate plain_engine ''2024-13-01'' = Date_UTC (Fin 2024) (Fin 12) (Fin 1)
   \<and> lastReqId (snd (render_start plain_engine 0 ''2024-01-01'' ''2024-13-01'' initial_world)) = 1"
proof -
  have a: "date_chars ''2024-13-01''"
    by (simp add: date_chars_def is_digit_def)
  have s: "split_on CHR ''-'' ''2024-13-01'' = [''2024'', ''13'', ''01'']" by simp
  have v: "dec_value ''2024'' = 2024" "dec_value ''13'' = 13" "dec_value ''01'' = 1"
    by (simp_all add: dec_value_def digit_val_def)
  from parse_accepts_and_render_proceeds [OF a, of plain_engine 0 0 0 0
      "''2024-01-01''" initial_world] a s v
  show ?thesis by (auto simp: initial_world_def js_incr_def)
qed

subsection \<open>The round trip on four-digit years\<close>

lemma digit_char_table:
  "\<forall>d \<in> set [0, 1, 2, 3, 4, 5, 6, 7, 8, 9].
     is_digit (digit_char d) \<and> digit_val (digit_char d) = int d"
  by code_simp

lemma digit_char_digit:
  assumes "d < 10"
  shows "is_digit (digit_char d)" and "digit_val (digit_char d) = int d"
proof -
  from assms have "d \<in> set [0, 1, 2, 3, 4, 5, 6, 7, 8, 9]" by auto
  with digit_char_table show "is_digit (digit_char d)" and "digit_val (digit_char d) = int d"
    by blast+
qed

lemma dec_value_snoc: "dec_value (s @ [c]) = 10 * dec_value s + digit_val c"
  by (simp add: dec_value_def)

lemma show_nat_digits: "list_all is_digit (show_nat n)"
proof (induction n rule: show_nat.induct)
  case (1 n)
  show ?case
  proof (cases "n < 10")
    case True
    then show ?thesis by (subst show_nat.simps) (simp add: digit_char_digit)
  next
    case False
    with 1 show ?thesis by (subst show_nat.simps) (simp add: digit_char_digit)
  qed
qed

lemma dec_value_show_nat: "dec_value (show_nat n) = int n"
proof (induction n rule: show_nat.induct)
  case (1 n)
  show ?case
  proof (cases "n < 10")
    case True
    then show ?thesis
      by (subst show_nat.simps) (simp add: dec_value_def digit_char_digit)
  next
    case False
    with 1 have "dec_value (show_nat (n div 10)) = int (n div 10)" by simp
    with False show ?thesis
      by (subst show_nat.simps) (simp add: dec_value_snoc digit_char_digit zdiv_int zmod_int)
  qed
qed

lemma dec_value_zero_Cons: "dec_value (CHR ''0'' # s) = dec_value s"
  by (simp add: dec_value_def digit_val_def)

lemma dec_value_zeros: "dec_value (replicate k CHR ''0'' @ s) = dec_value s"
  by (induction k) (simp_all add: dec_value_zero_Cons)

lemma zero_is_digit: "is_digit CHR ''0''"
  by (simp add: is_digit_def)

lemma zeros_digits: "list_all is_digit (replicate k CHR ''0'')"
  by (induction k) (simp_all add: zero_is_digit)

lemma pad2_digits:
  assumes "0 \<le> m"
  shows "list_all is_digit (pad2 (Fin m))" and "dec_value (pad2 (Fin m)) = m"
proof -
  have s: "String_num (Fin m) = show_nat (nat m)" using assms by (simp add: String_num_def)
  have p: "pad2 (Fin m) = replicate (2 - length (show_nat (nat m))) CHR ''0'' @ show_nat (nat m)"
    by (simp add: pad2_def s Let_def)
  show "list_all is_digit (pad2 (Fin m))"
    unfolding p by (simp add: zeros_digits show_nat_digits)
  show "dec_value (pad2 (Fin m)) = m"
    unfolding p using assms by (simp add: dec_value_zeros dec_value_show_nat)
qed

lemma show_nat_length4: "1000 \<le> n \<Longrightarrow> n < 10000 \<Longrightarrow> length (show_nat n) = 4"
proof -
  assume a: "1000 \<le> n" "n < 10000"
  have l1: "length (show_nat k) = 1" if "k < 10" for k
    using that by (subst show_nat.simps) simp
  have l2: "length (show_nat k) = 2" if "10 \<le> k" "k < 100" for k
    using that l1 [of "k div 10"] by (subst show_nat.simps) simp
  have l3: "length (show_nat k) = 3" if "100 \<le> k" "k < 1000" for k
    using that l2 [of "k div 10"] by (subst show_nat.simps) simp
  show ?thesis
    using a l3 [of "n div 10"] by (subst show_nat.simps) simp
qed

lemma ite3:
  "(if \<not> a then (x::int) else if \<not> b then z else if \<not> c then x else z)
     = (if a \<and> (\<not> b \<or> c) then z else x)"
  by simp

lemma leap_year_DaysInYear: "DaysInYear y = (if leap_year y then 366 else 365)"
  unfolding leap_year_def DaysInYear_def by (rule ite3)

lemma month_cases:
  "1 \<le> (m::int) \<Longrightarrow> m \<le> 12 \<Longrightarrow>
     m = 1 \<or> m = 2 \<or> m = 3 \<or> m = 4 \<or> m = 5 \<or> m = 6 \<or> m = 7 \<or> m = 8 \<or> m = 9
     \<or> m = 10 \<or> m = 11 \<or> m = 12"
  by arith

lemma month_start_table:
  "month_start leap 0 = 0" "month_start leap 1 = 31"
  "month_start leap 2 = (if leap then 60 else 59)" "month_start leap 3 = (if leap then 91 else 90)"
  "month_start leap 4 = (if leap then 121 else 120)" "month_start leap 5 = (if leap then 152 else 151)"
  "month_start leap 6 = (if leap then 182 else 181)" "month_start leap 7 = (if leap then 213 else 212)"
  "month_start leap 8 = (if leap then 244 else 243)" "month_start leap 9 = (if leap then 274 else 273)"
  "month_start leap 10 = (if leap then 305 else 304)" "month_start leap 11 = (if leap then 335 else 334)"
  by (simp_all add: month_start_def)

lemma within_month_lower:
  assumes "1 \<le> m" "m \<le> 12" "1 \<le> d"
  shows "0 \<le> month_start leap (m - 1) + d - 1"
  using month_cases [OF assms(1,2)] assms(3)
  by (elim disjE) (simp_all add: month_start_table)

lemma within_month_upper:
  assumes "1 \<le> m" "m \<le> 12" "d \<le> days_in_month y m"
  shows "month_start (leap_year y) (m - 1) + d - 1 < DaysInYear y"
  using month_cases [OF assms(1,2)] assms(3)
  by (elim disjE)
    (auto simp: month_start_table days_in_month_def leap_year_DaysInYear split: if_splits)

lemma month_chain:
  assumes "1 \<le> m" "m \<le> 12" "1 \<le> d" "d \<le> days_in_month y m"
    and "w = month_start (leap_year y) (m - 1) + d - 1" and "leap = leap_year y"
  shows "(if w < month_start leap 1 then 0 else if w < month_start leap 2 then 1
      else if w < month_start leap 3 then 2 else if w < month_start leap 4 then 3
      else if w < month_start leap 5 then 4 else if w < month_start leap 6 then 5
      else if w < month_start leap 7 then 6 else if w < month_start leap 8 then 7
      else if w < month_start leap 9 then 8 else if w < month_start leap 10 then 9
      else if w < month_start leap 11 then 10 else (11::int)) = m - 1"
proof (cases "leap_year y")
  case True
  with month_cases [OF assms(1,2)] assms(3-6) show ?thesis
    by (elim disjE) (simp_all add: month_start_table days_in_month_def)
next
  case False
  with month_cases [OF assms(1,2)] assms(3-6) show ?thesis
    by (elim disjE) (simp_all add: month_start_table days_in_month_def)
qed

lemma civil_date_fields:
  assumes "1 \<le> m" "m \<le> 12" "1 \<le> d" "d \<le> days_in_month y m"
    and "day = DayFromYear y + month_start (leap_year y) (m - 1) + d - 1"
  shows "YearFromTime (day * MS_PER_DAY) = y"
    and "MonthFromTime (day * MS_PER_DAY) = m - 1"
    and "DateFromTime (day * MS_PER_DAY) = d"
proof -
  let ?w = "month_start (leap_year y) (m - 1) + d - 1"
  have lo: "0 \<le> ?w" by (rule within_month_lower [OF assms(1,2,3)])
  have hi: "?w < DaysInYear y" by (rule within_month_upper [OF assms(1,2,4)])
  have "DayFromYear y \<le> day" using lo assms(5) by simp
  moreover have "day < DayFromYear (y + 1)" using hi assms(5) by (simp add: DayFromYear_Suc)
  ultimately have "YearFromDay day = y" by (rule YearFromDay_unique)
  then show y: "YearFromTime (day * MS_PER_DAY) = y"
    by (simp add: YearFromTime_def Day_civil)
  have leap: "InLeapYear (day * MS_PER_DAY) = leap_year y"
    by (simp add: InLeapYear_def y leap_year_DaysInYear)
  have "DayWithinYear (day * MS_PER_DAY) = day - DayFromYear y"
    by (simp add: DayWithinYear_def y Day_civil)
  also have "\<dots> = ?w" by (simp add: assms(5))
  finally have w: "DayWithinYear (day * MS_PER_DAY) = ?w" .
  show mth: "MonthFromTime (day * MS_PER_DAY) = m - 1"
    unfolding MonthFromTime_def Let_def w leap
    by (rule month_chain [OF assms(1-4) refl refl])
  show "DateFromTime (day * MS_PER_DAY) = d"
    by (simp add: DateFromTime_def w leap mth)
qed

lemma DayFromYear_range:
  assumes "1000 \<le> y" "y \<le> 9999"
  shows "- 354285 \<le> DayFromYear y" and "DayFromYear y \<le> 2932532"
proof -
  have "DayFromYear 1000 \<le> DayFromYear y" by (rule DayFromYear_mono [OF assms(1)])
  then show "- 354285 \<le> DayFromYear y" by (simp add: DayFromYear_def)
  have "DayFromYear y \<le> DayFromYear 9999" by (rule DayFromYear_mono [OF assms(2)])
  then show "DayFromYear y \<le> 2932532" by (simp add: DayFromYear_def)
qed

lemma Date_UTC_civil:
  assumes "1000 \<le> y" "y \<le> 9999" "1 \<le> m" "m \<le> 12" "1 \<le> d" "d \<le> days_in_month y m"
  shows "Date_UTC (Fin y) (Fin (m - 1)) (Fin d)
           = Fin ((DayFromYear y + month_start (leap_year y) (m - 1) + d - 1) * MS_PER_DAY)"
proof -
  let ?w = "month_start (leap_year y) (m - 1) + d - 1"
  have lo: "0 \<le> ?w" by (rule within_month_lower [OF assms(3,4,5)])
  have hi: "?w < DaysInYear y" by (rule within_month_upper [OF assms(3,4,6)])
  have hi': "?w < 366" using hi DaysInYear_cases [of y] by auto
  have mk: "MakeDay (MakeFullYear y) (m - 1) d = DayFromYear y + ?w"
    using assms(1,3,4) by (simp add: MakeDay_def MakeFullYear_def leap_year_DaysInYear Let_def)
  have "\<bar>(DayFromYear y + ?w) * MS_PER_DAY\<bar> \<le> 8640000000000000"
    using DayFromYear_range [OF assms(1,2)] lo hi'
    by (simp add: MS_PER_DAY_def abs_le_iff)
  then show ?thesis
    by (simp add: Date_UTC_def mk TimeClip_def algebra_simps)
qed

text \<open>
  For the years 1000 to 9999 the round trip does hold: serialising the parsed date gives
  back the canonical key of every real calendar date, which has ten characters.
\<close>

lemma round_trip_four_digit_years:
  assumes "1000 \<le> y" "y \<le> 9999" "1 \<le> m" "m \<le> 12" "1 \<le> d" "d \<le> days_in_month y m"
  shows "utcDateToYMD (ymdToUTCDate E (date_key y m d)) = date_key y m d
         \<and> length (date_key y m d) = 10"
proof -
  let ?day = "DayFromYear y + month_start (leap_year y) (m - 1) + d - 1"
  have ys: "String_num (Fin y) = show_nat (nat y)" using assms(1) by (simp add: String_num_def)
  have key: "date_key y m d = show_nat (nat y) @ ''-'' @ pad2 (Fin m) @ ''-'' @ pad2 (Fin d)"
    by (simp add: date_key_def ys)
  have vy: "dec_value (show_nat (nat y)) = y" using assms(1) by (simp add: dec_value_show_nat)
  have vm: "dec_value (pad2 (Fin m)) = m" using assms(3) by (simp add: pad2_digits)
  have vd: "dec_value (pad2 (Fin d)) = d" using assms(5) by (simp add: pad2_digits)
  have "ymdToUTCDate E (date_key y m d) = Date_UTC (Fin y) (Fin (m - 1)) (Fin d)"
    unfolding key using assms(3,5)
    by (subst ymdToUTCDate_three) (simp_all add: show_nat_digits pad2_digits vy vm vd)
  also have "\<dots> = Fin (?day * MS_PER_DAY)" by (rule Date_UTC_civil [OF assms])
  finally have parsed: "ymdToUTCDate E (date_key y m d) = Fin (?day * MS_PER_DAY)" .
  note f = civil_date_fields [OF assms(3-6) refl]
  have trip: "utcDateToYMD (ymdToUTCDate E (date_key y m d)) = date_key y m d"
    unfolding parsed
    by (simp add: utcDateToYMD_def getUTCFullYear_def getUTCMonth_def getUTCDate_def f
        js_plus_def date_key_def Let_def)
  have ly: "length (show_nat (nat y)) = 4"
    using assms(1,2) by (intro show_nat_length4) simp_all
  have l2: "length (pad2 (Fin k)) = 2" if "1 \<le> k" "k \<le> 31" for k
  proof -
    have s: "String_num (Fin k) = show_nat (nat k)" using that by (simp add: String_num_def)
    have "length (show_nat (nat k)) \<le> 2"
    proof (cases "nat k < 10")
      case True
      then show ?thesis by (subst show_nat.simps) simp
    next
      case False
      moreover have "nat k div 10 < 10" using that by simp
      ultimately show ?thesis
        by (subst show_nat.simps, subst show_nat.simps) simp
    qed
    moreover have "0 < length (show_nat (nat k))"
      by (subst show_nat.simps) simp
    ultimately show ?thesis by (simp add: pad2_def s Let_def)
  qed
  have "d \<le> 31" using assms(6) by (simp add: days_in_month_def split: if_splits)
  then have "length (date_key y m d) = 10"
    using l2 [of m] l2 [of d] assms(3-5) ly by (simp add: key)
  with trip show ?thesis by simp
qed

text \<open>
  C7.  Serialising the parsed date does not reproduce every valid key: \<open>Date.UTC\<close> reads
  a year from 0 to 99 as 1900 plus that year, and \<open>utcDateToYMD\<close> pads the month and the
  day but not the year.  The keys 0050-01-01 and 0999-12-31 come back changed; a key of a
  four-digit year such as 2024-02-29 comes back as it was.
\<close>

theorem early_year_round_trip:
  "utcDateToYMD (ymdToUTCDate plain_engine ''0050-01-01'') = ''1950-01-01''
   \<and> utcDateToYMD (ymdToUTCDate plain_engine ''0999-12-31'') = ''999-12-31''
   \<and> utcDateToYMD (ymdToUTCDate plain_engine ''2024-02-29'') = ''2024-02-29''"
  by code_simp

end
